theory Spec2Isabelle
  imports Main "HOL-Library.Sublist"
begin

section \<open>Text model\<close>

text \<open>
  Python strings are modelled as \<open>string\<close>; a \<open>char\<close> stands for the code point of the
  same number (0 to 255).  The character classes below are those of Python 3 for these
  code points: \<open>str.isspace\<close> (used by \<open>str.strip\<close> and by \<open>\s\<close>), the word
  characters of \<open>\w\<close> and the decimal digits of \<open>\d\<close>.
\<close>

abbreviation LF :: char where "LF \<equiv> CHR 0x0A"
abbreviation CR :: char where "CR \<equiv> CHR 0x0D"

definition is_space :: "char \<Rightarrow> bool" where
  "is_space c = (let n = (of_char c :: nat) in
     (9 \<le> n \<and> n \<le> 13) \<or> (28 \<le> n \<and> n \<le> 32) \<or> n = 133 \<or> n = 160)"

definition is_digit :: "char \<Rightarrow> bool" where
  "is_digit c = (let n = (of_char c :: nat) in 48 \<le> n \<and> n \<le> 57)"

definition is_word :: "char \<Rightarrow> bool" where
  "is_word c = (let n = (of_char c :: nat) in
     (48 \<le> n \<and> n \<le> 57) \<or> (65 \<le> n \<and> n \<le> 90) \<or> n = 95 \<or> (97 \<le> n \<and> n \<le> 122) \<or>
     n = 170 \<or> n = 178 \<or> n = 179 \<or> n = 181 \<or> n = 185 \<or> n = 186 \<or>
     (188 \<le> n \<and> n \<le> 190) \<or> (192 \<le> n \<and> n \<le> 214) \<or> (216 \<le> n \<and> n \<le> 246) \<or>
     (248 \<le> n \<and> n \<le> 255))"

section \<open>The regular expressions of module re\<close>

text \<open>
  The patterns of the program use literals, the classes \<open>.\<close>, \<open>\s\<close>, \<open>\w\<close>, \<open>\d\<close>, the
  quantifiers \<open>*\<close>, \<open>+\<close>, \<open>+?\<close> on a single class, groups and \<open>^\<close>.  A pattern is the
  list of its items; the matcher is the backtracking matcher of \<open>re\<close>: a greedy
  quantifier tries the longer repetition first, a lazy one the shorter.
\<close>

datatype cclass = Lit char | Dot | Space | Word | Digit

fun cmatch :: "cclass \<Rightarrow> char \<Rightarrow> bool" where
  "cmatch (Lit a) c = (c = a)"
| "cmatch Dot c = (c \<noteq> LF)"
| "cmatch Space c = is_space c"
| "cmatch Word c = is_word c"
| "cmatch Digit c = is_digit c"

datatype item = One cclass | Star cclass | Plus cclass | LazyStar cclass | LazyPlus cclass
  | GOpen nat | GClose nat | Bol

type_synonym spans = "nat \<Rightarrow> (nat \<times> nat) option"

text \<open>
  \<open>re_m r s i st g\<close> matches the items \<open>r\<close> against the text \<open>s\<close> that starts at
  offset \<open>i\<close> of the subject; \<open>st\<close> holds the offsets of the groups opened so far and
  \<open>g\<close> the spans of the groups closed so far.  The result is the end offset and the spans.
\<close>

fun re_m :: "item list \<Rightarrow> string \<Rightarrow> nat \<Rightarrow> (nat \<Rightarrow> nat) \<Rightarrow> spans \<Rightarrow> (nat \<times> spans) option" where
  "re_m [] s i st g = Some (i, g)"
| "re_m (One c # r) [] i st g = None"
| "re_m (One c # r) (x # xs) i st g = (if cmatch c x then re_m r xs (Suc i) st g else None)"
| "re_m (Star c # r) [] i st g = re_m r [] i st g"
| "re_m (Star c # r) (x # xs) i st g =
     (if cmatch c x then
        (case re_m (Star c # r) xs (Suc i) st g of
           Some y \<Rightarrow> Some y
         | None \<Rightarrow> re_m r (x # xs) i st g)
      else re_m r (x # xs) i st g)"
| "re_m (Plus c # r) [] i st g = None"
| "re_m (Plus c # r) (x # xs) i st g =
     (if cmatch c x then re_m (Star c # r) xs (Suc i) st g else None)"
| "re_m (LazyStar c # r) [] i st g = re_m r [] i st g"
| "re_m (LazyStar c # r) (x # xs) i st g =
     (case re_m r (x # xs) i st g of
        Some y \<Rightarrow> Some y
      | None \<Rightarrow> (if cmatch c x then re_m (LazyStar c # r) xs (Suc i) st g else None))"
| "re_m (LazyPlus c # r) [] i st g = None"
| "re_m (LazyPlus c # r) (x # xs) i st g =
     (if cmatch c x then re_m (LazyStar c # r) xs (Suc i) st g else None)"
| "re_m (GOpen n # r) s i st g = re_m r s i (st(n := i)) g"
| "re_m (GClose n # r) s i st g = re_m r s i st (g(n \<mapsto> (st n, i)))"
| "re_m (Bol # r) s i st g = (if i = 0 then re_m r s i st g else None)"

fun lits :: "string \<Rightarrow> item list" where
  "lits [] = []"
| "lits (c # cs) = One (Lit c) # lits cs"

record re_match =
  m_start :: nat
  m_end :: nat
  m_spans :: spans

definition match_at :: "item list \<Rightarrow> string \<Rightarrow> nat \<Rightarrow> re_match option" where
  "match_at r s i =
     (case re_m r s i (\<lambda>_. 0) (\<lambda>_. None) of
        None \<Rightarrow> None
      | Some (e, g) \<Rightarrow> Some \<lparr>m_start = i, m_end = e, m_spans = g\<rparr>)"

text \<open>\<open>re.match\<close>: at the start of the subject only.\<close>

definition re_match :: "item list \<Rightarrow> string \<Rightarrow> re_match option" where
  "re_match r s = match_at r s 0"

text \<open>\<open>re.search\<close>: the match at the leftmost offset that has one.\<close>

fun search_from :: "item list \<Rightarrow> string \<Rightarrow> nat \<Rightarrow> re_match option" where
  "search_from r [] i = match_at r [] i"
| "search_from r (x # xs) i =
     (case match_at r (x # xs) i of
        Some m \<Rightarrow> Some m
      | None \<Rightarrow> search_from r xs (Suc i))"

definition re_search :: "item list \<Rightarrow> string \<Rightarrow> re_match option" where
  "re_search r s = search_from r s 0"

text \<open>\<open>s[a:b]\<close> and \<open>match.group\<close>.\<close>

definition slice :: "string \<Rightarrow> nat \<Rightarrow> nat \<Rightarrow> string" where
  "slice s a b = take (b - a) (drop a s)"

definition group0 :: "string \<Rightarrow> re_match \<Rightarrow> string" where
  "group0 s m = slice s (m_start m) (m_end m)"

definition group :: "string \<Rightarrow> re_match \<Rightarrow> nat \<Rightarrow> string" where
  "group s m n = (case m_spans m n of None \<Rightarrow> [] | Some (a, b) \<Rightarrow> slice s a b)"


text \<open>
  \<open>re.finditer\<close>: the matches from left to right, each search starting where the match
  before ended.  Every pattern the program passes to \<open>finditer\<close> and \<open>sub\<close> begins with
  a literal or a \<open>+\<close> group and so consumes a character (lemma \<open>re_m_consumes\<close> below);
  after an empty match the scan moves one character on.
\<close>

function scan :: "item list \<Rightarrow> string \<Rightarrow> nat \<Rightarrow> re_match list" where
  "scan r [] i = (case match_at r [] i of None \<Rightarrow> [] | Some m \<Rightarrow> [m])"
| "scan r (x # xs) i =
     (case match_at r (x # xs) i of
        None \<Rightarrow> scan r xs (Suc i)
      | Some m \<Rightarrow> m # scan r (drop (m_end m - Suc i) xs) (max (m_end m) (Suc i)))"
  by pat_completeness auto
termination
  by (relation "measure (\<lambda>(r, s, i). length s)") auto

definition finditer :: "item list \<Rightarrow> string \<Rightarrow> re_match list" where
  "finditer r s = scan r s 0"

text \<open>
  \<open>re.sub\<close> with a template: the text between the matches is kept, each match is
  replaced by the expanded template (\<open>\1\<close> is the text of group 1).
\<close>

datatype titem = TLit string | TGroup nat

fun expand :: "string \<Rightarrow> re_match \<Rightarrow> titem list \<Rightarrow> string" where
  "expand s m [] = []"
| "expand s m (TLit l # t) = l @ expand s m t"
| "expand s m (TGroup n # t) = group s m n @ expand s m t"

fun sub_build :: "string \<Rightarrow> titem list \<Rightarrow> nat \<Rightarrow> re_match list \<Rightarrow> string" where
  "sub_build s t pos [] = drop pos s"
| "sub_build s t pos (m # ms) =
     slice s pos (m_start m) @ expand s m t @ sub_build s t (m_end m) ms"

definition re_sub :: "item list \<Rightarrow> titem list \<Rightarrow> string \<Rightarrow> string" where
  "re_sub r t s = sub_build s t 0 (finditer r s)"

section \<open>String methods\<close>

text \<open>\<open>str.strip()\<close>: leading and trailing whitespace removed.\<close>

definition lstrip :: "string \<Rightarrow> string" where
  "lstrip s = dropWhile is_space s"

definition strip :: "string \<Rightarrow> string" where
  "strip s = rev (dropWhile is_space (rev (dropWhile is_space s)))"

text \<open>\<open>sub in s\<close> is \<^const>\<open>sublist\<close>; \<open>s.count('\n')\<close> is \<^const>\<open>count_list\<close>.\<close>

text \<open>\<open>str.replace(old, new)\<close>: every occurrence of \<open>old\<close>, left to right, not overlapping.\<close>

function replace :: "string \<Rightarrow> string \<Rightarrow> string \<Rightarrow> string" where
  "replace old new [] = (if old = [] then new else [])"
| "replace old new (c # cs) =
     (if old = [] then new @ c # replace old new cs
      else if prefix old (c # cs) then new @ replace old new (drop (length old) (c # cs))
      else c # replace old new cs)"
  by pat_completeness auto
termination
  by (relation "measure (\<lambda>(old, new, s). length s)") (auto simp: neq_Nil_conv)

text \<open>
  \<open>f.readlines()\<close>: the lines with their terminating newline; the last line has none when
  the text does not end in one.
\<close>

fun readlines :: "string \<Rightarrow> string list" where
  "readlines [] = []"
| "readlines (c # cs) =
     (if c = LF then [c] # readlines cs
      else (case readlines cs of [] \<Rightarrow> [[c]] | l # ls \<Rightarrow> (c # l) # ls))"

text \<open>
  \<open>str.splitlines()\<close>: the lines without their terminators; it splits at every line
  boundary of Python (\<open>\n\<close>, \<open>\r\<close>, \<open>\r\n\<close>, \<open>\v\<close>, \<open>\f\<close>, \<open>\x1c\<close>, \<open>\x1d\<close>, \<open>\x1e\<close>,
  \<open>\x85\<close>), not only at \<open>\n\<close>.
\<close>

definition is_linebreak :: "char \<Rightarrow> bool" where
  "is_linebreak c = (let n = (of_char c :: nat) in
     (10 \<le> n \<and> n \<le> 13) \<or> (28 \<le> n \<and> n \<le> 30) \<or> n = 133)"

fun splitlines :: "string \<Rightarrow> string list" where
  "splitlines [] = []"
| "splitlines (c # cs) =
     (if c = CR \<and> cs \<noteq> [] \<and> hd cs = LF then [] # splitlines (tl cs)
      else if is_linebreak c then [] # splitlines cs
      else (case splitlines cs of [] \<Rightarrow> [[c]] | l # ls \<Rightarrow> (c # l) # ls))"

text \<open>\<open>str(n)\<close> for an integer.\<close>

function digits_of :: "nat \<Rightarrow> string" where
  "digits_of n =
     (if n < 10 then [char_of (48 + n)] else digits_of (n div 10) @ [char_of (48 + n mod 10)])"
  by pat_completeness auto
termination
  by (relation "measure id") auto

definition str_of_int :: "int \<Rightarrow> string" where
  "str_of_int k = (if k < 0 then CHR ''-'' # digits_of (nat (- k)) else digits_of (nat k))"

section \<open>Errors, lists, files\<close>

datatype error = FileNotFoundError | IndexError

text \<open>\<open>xs[i]\<close> and \<open>xs[i] = v\<close>: a negative index counts from the end, an index out of range raises.\<close>

definition py_index :: "'a list \<Rightarrow> int \<Rightarrow> nat option" where
  "py_index xs i =
     (if 0 \<le> i \<and> i < int (length xs) then Some (nat i)
      else if i < 0 \<and> - int (length xs) \<le> i then Some (nat (int (length xs) + i))
      else None)"

definition getitem :: "'a list \<Rightarrow> int \<Rightarrow> error + 'a" where
  "getitem xs i = (case py_index xs i of None \<Rightarrow> Inl IndexError | Some j \<Rightarrow> Inr (xs ! j))"

definition setitem :: "'a list \<Rightarrow> int \<Rightarrow> 'a \<Rightarrow> error + 'a list" where
  "setitem xs i v = (case py_index xs i of None \<Rightarrow> Inl IndexError | Some j \<Rightarrow> Inr (xs[j := v]))"

text \<open>
  The files: a map from paths to contents, the characters as they are stored.
  \<open>open(path, 'r')\<close> and \<open>open(path, 'w')\<close> are text mode with universal newlines: what is
  read has \<open>\r\n\<close> and \<open>\r\<close> turned into \<open>\n\<close>, and what is written has every \<open>\n\<close> turned
  into \<open>os.linesep\<close>, which is \<open>\n\<close> on POSIX (macOS, Linux) and \<open>\r\n\<close> on Windows.
\<close>

type_synonym files = "string \<rightharpoonup> string"

fun universal_newlines :: "string \<Rightarrow> string" where
  "universal_newlines [] = []"
| "universal_newlines (c # cs) =
     (if c = CR then
        LF # (case cs of
                [] \<Rightarrow> []
              | d # ds \<Rightarrow> if d = LF then universal_newlines ds else universal_newlines (d # ds))
      else c # universal_newlines cs)"

definition write_newlines :: "string \<Rightarrow> string \<Rightarrow> string" where
  "write_newlines linesep s = concat (map (\<lambda>c. if c = LF then linesep else [c]) s)"

datatype platform = Posix | Nt

fun os_linesep :: "platform \<Rightarrow> string" where
  "os_linesep Posix = [LF]"
| "os_linesep Nt = [CR, LF]"

text \<open>\<open>with open(p, 'r') as f: f.read()\<close>; \<open>f.readlines()\<close> is \<open>readlines\<close> of it.\<close>

definition read_file :: "files \<Rightarrow> string \<Rightarrow> error + string" where
  "read_file fs p =
     (case fs p of None \<Rightarrow> Inl FileNotFoundError | Some raw \<Rightarrow> Inr (universal_newlines raw))"

text \<open>\<open>with open(p, 'w') as f: f.writelines(lines)\<close>.\<close>

definition write_lines :: "platform \<Rightarrow> files \<Rightarrow> string \<Rightarrow> string list \<Rightarrow> files" where
  "write_lines pf fs p lines = fs(p \<mapsto> write_newlines (os_linesep pf) (concat lines))"

section \<open>Issues and fixes\<close>

record issue =
  i_file :: string
  i_line :: int
  i_type :: string
  i_message :: string
  i_suggestion :: string

record fix_rec =
  f_file :: string
  f_line :: int
  f_original :: string
  f_replacement :: "string option"
  f_message :: string

abbreviation BSL :: char where "BSL \<equiv> CHR 0x5C"
abbreviation DQ :: char where "DQ \<equiv> CHR 0x22"

text \<open>The line of a match: \<open>content[:match.start()].count('\n') + 1\<close>.\<close>

definition line_of :: "string \<Rightarrow> re_match \<Rightarrow> int" where
  "line_of content m = int (count_list (take (m_start m) content) LF) + 1"


section \<open>Detection\<close>

definition vstack_pattern :: "item list" where
  "vstack_pattern = lits ''VStack(spacing:'' @ [Star Dot, One (Lit CHR '')'')]"

definition text_interp_pattern :: "item list" where
  "text_interp_pattern =
     lits ''Text('' @ [One (Lit DQ), Star Dot, One (Lit BSL), One (Lit CHR ''(''), Star Dot,
       One (Lit CHR ''?''), Star Dot, One (Lit CHR '':''), Star Dot, One (Lit CHR '')''),
       Star Dot, One (Lit DQ), One (Lit CHR '')'')]"

definition check_build_expression :: "string \<Rightarrow> string \<Rightarrow> issue list" where
  "check_build_expression content file_path =
     map (\<lambda>m. \<lparr>i_file = file_path, i_line = line_of content m, i_type = ''buildExpression'',
          i_message = ''Potential buildExpression issue with VStack spacing parameter'',
          i_suggestion = ''Replace with VStack {} and explicit Spacer().frame(height: X) elements''\<rparr>)
     (finditer vstack_pattern content) @
     map (\<lambda>m. \<lparr>i_file = file_path, i_line = line_of content m, i_type = ''buildExpression'',
          i_message = ''Potential buildExpression issue with conditional expression in Text interpolation'',
          i_suggestion = ''Extract the conditional expression to a separate variable before using in Text''\<rparr>)
     (finditer text_interp_pattern content)"

definition deprecated_apis :: "(item list \<times> string) list" where
  "deprecated_apis =
    [(lits ''AVAsset(url:'', ''AVURLAsset(url:''),
     (lits ''.duration'' @ [One Space], ''asset.load(.duration)''),
     (lits ''.tracks(withMediaType:'', ''asset.loadTracks(withMediaType:''),
     (lits ''.nominalFrameRate'', ''videoTrack.load(.nominalFrameRate)''),
     (lits ''.naturalSize'', ''videoTrack.load(.naturalSize)''),
     (lits ''copyCGImage(at:'', ''generateCGImageAsynchronously(for:''),
     (lits ''init(url:)'', ''AVURLAsset(url:)'')]"

definition deprecated_issue :: "string \<Rightarrow> string \<Rightarrow> string \<Rightarrow> re_match \<Rightarrow> issue" where
  "deprecated_issue content file_path replacement m =
     \<lparr>i_file = file_path, i_line = line_of content m, i_type = ''deprecated_api'',
      i_message = ''Potential deprecated API usage: '' @ group0 content m,
      i_suggestion = ''Consider using '' @ replacement @ '' instead''\<rparr>"

text \<open>The two nested loops: every pattern of the catalog, every match of the pattern.\<close>

definition check_deprecated_apis :: "string \<Rightarrow> string \<Rightarrow> issue list" where
  "check_deprecated_apis content file_path =
     foldl (\<lambda>issues (pattern, replacement).
         foldl (\<lambda>issues m. issues @ [deprecated_issue content file_path replacement m])
           issues (finditer pattern content))
       [] deprecated_apis"

definition class_pattern :: "item list" where
  "class_pattern = lits ''class'' @ [Plus Space, GOpen 1, Plus Word, GClose 1]"

definition check_sendable_conformance :: "string \<Rightarrow> string \<Rightarrow> issue list" where
  "check_sendable_conformance content file_path =
     concat (map (\<lambda>class_match.
         let class_name = group content class_match 1 in
         if sublist ''Task'' content \<or> sublist ''async'' content then
           if \<not> sublist '': Sendable'' content \<and> \<not> sublist ''@unchecked Sendable'' content then
             [\<lparr>i_file = file_path, i_line = line_of content class_match,
               i_type = ''sendable_conformance'',
               i_message = ''Class '' @ class_name @
                 '' might need Sendable conformance for use in async contexts'',
               i_suggestion = ''Add '' @ [DQ] @ '': @unchecked Sendable'' @ [DQ] @
                 '' to class definition or make class thread-safe''\<rparr>]
           else []
         else [])
       (finditer class_pattern content))"

text \<open>\<open>analyze_file\<close> is the detector: the three checks on the text of the file, in this order.\<close>

definition analyze_file :: "files \<Rightarrow> string \<Rightarrow> error + issue list" where
  "analyze_file fs file_path =
     (case read_file fs file_path of
        Inl e \<Rightarrow> Inl e
      | Inr content \<Rightarrow>
          Inr (check_build_expression content file_path @
               check_deprecated_apis content file_path @
               check_sendable_conformance content file_path))"

section \<open>Fix synthesis\<close>

definition spacing_pattern :: "item list" where
  "spacing_pattern = lits ''spacing:'' @ [Star Space, GOpen 1, Plus Digit, GClose 1]"

definition indent_pattern :: "item list" where
  "indent_pattern = [Bol, Star Space]"

definition conditional_pattern :: "item list" where
  "conditional_pattern =
     [One (Lit BSL), GOpen 1, GOpen 2, LazyPlus Dot, One (Lit CHR ''?''), LazyPlus Dot,
      One (Lit CHR '':''), LazyPlus Dot, GClose 2, One (Lit BSL), GClose 1]"

text \<open>
  \<open>re.match(r'^\s*', line).group(0)\<close>.  The pattern matches every line (lemma
  \<open>indent_pattern_matches\<close>), so the branch for \<open>None\<close> is never taken.
\<close>

definition indent_of :: "string \<Rightarrow> string" where
  "indent_of line = (case re_match indent_pattern line of None \<Rightarrow> [] | Some m \<Rightarrow> group0 line m)"

definition manual_fix :: "string \<Rightarrow> int \<Rightarrow> string \<Rightarrow> string \<Rightarrow> fix_rec" where
  "manual_fix file_path line_num line msg =
     \<lparr>f_file = file_path, f_line = line_num + 1, f_original = strip line,
      f_replacement = None, f_message = msg\<rparr>"

definition fix_build_expression :: "files \<Rightarrow> issue \<Rightarrow> error + fix_rec" where
  "fix_build_expression fs issue =
     (let file_path = i_file issue in
      case read_file fs file_path of
        Inl e \<Rightarrow> Inl e
      | Inr content \<Rightarrow>
          let lines = readlines content; line_num = i_line issue - 1 in
          case getitem lines line_num of
            Inl e \<Rightarrow> Inl e
          | Inr line \<Rightarrow>
              if sublist ''VStack(spacing:'' line then
                let spacing = (case re_search spacing_pattern line of
                                 Some spacing_match \<Rightarrow> group line spacing_match 1
                               | None \<Rightarrow> ''20'');
                    indent = indent_of line;
                    new_line = indent @ ''VStack {'' @ [LF] @
                               indent @ ''    Spacer().frame(height: '' @ spacing @ '')'' @ [LF]
                in Inr \<lparr>f_file = file_path, f_line = line_num + 1, f_original = strip line,
                         f_replacement = Some (strip new_line),
                         f_message = ''Replace VStack(spacing: '' @ spacing @
                           '') with VStack and explicit Spacer''\<rparr>
              else if sublist ''Text('' line \<and> sublist [BSL, CHR ''(''] line \<and> sublist ''?'' line then
                (case re_search conditional_pattern line of
                   Some conditional_match \<Rightarrow>
                     let conditional_expr = group line conditional_match 1;
                         indent = indent_of line;
                         var_name = ''computed_value'';
                         new_lines = indent @ ''let '' @ var_name @ '' = '' @ conditional_expr @ [LF];
                         modified_text = replace ([BSL, CHR ''(''] @ conditional_expr @ '')'')
                                           ([BSL, CHR ''(''] @ var_name @ '')'') line
                     in Inr \<lparr>f_file = file_path, f_line = line_num + 1, f_original = strip line,
                              f_replacement = Some (strip (new_lines @ modified_text)),
                              f_message =
                                ''Extract conditional expression to a variable before using in Text''\<rparr>
                 | None \<Rightarrow>
                     Inr (manual_fix file_path line_num line
                            ''Manual fix required for this buildExpression issue''))
              else Inr (manual_fix file_path line_num line
                          ''Manual fix required for this buildExpression issue''))"

definition api_replacements :: "(item list \<times> titem list) list" where
  "api_replacements =
    [(lits ''AVAsset(url: '' @ [GOpen 1, LazyPlus Dot, GClose 1, One (Lit CHR '')'')],
      [TLit ''AVURLAsset(url: '', TGroup 1, TLit '')'']),
     ([GOpen 1, Plus Word, GClose 1] @ lits ''.duration'',
      [TLit ''try await '', TGroup 1, TLit ''.load(.duration)'']),
     ([GOpen 1, Plus Word, GClose 1] @ lits ''.tracks(withMediaType: '' @
        [GOpen 2, LazyPlus Dot, GClose 2, One (Lit CHR '')'')],
      [TLit ''try await '', TGroup 1, TLit ''.loadTracks(withMediaType: '', TGroup 2, TLit '')'']),
     ([GOpen 1, Plus Word, GClose 1] @ lits ''.nominalFrameRate'',
      [TLit ''try await '', TGroup 1, TLit ''.load(.nominalFrameRate)'']),
     ([GOpen 1, Plus Word, GClose 1] @ lits ''.naturalSize'',
      [TLit ''try await '', TGroup 1, TLit ''.load(.naturalSize)'']),
     ([GOpen 1, Plus Word, GClose 1] @ lits ''.copyCGImage(at: '' @
        [GOpen 2, LazyPlus Dot, GClose 2] @ lits '', actualTime: '' @
        [GOpen 3, LazyPlus Dot, GClose 3, One (Lit CHR '')'')],
      [TGroup 1, TLit ''.generateCGImageAsynchronously(for: '', TGroup 2,
       TLit '') { cgImage, actualTime, error in''])]"

text \<open>The loop over \<open>api_replacements\<close>: the first pattern found in the line is applied.\<close>

fun first_replacement :: "(item list \<times> titem list) list \<Rightarrow> string \<Rightarrow> string option" where
  "first_replacement [] line = None"
| "first_replacement ((pattern, replacement) # rest) line =
     (case re_search pattern line of
        Some m \<Rightarrow> Some (re_sub pattern replacement line)
      | None \<Rightarrow> first_replacement rest line)"

definition fix_deprecated_api :: "files \<Rightarrow> issue \<Rightarrow> error + fix_rec" where
  "fix_deprecated_api fs issue =
     (let file_path = i_file issue in
      case read_file fs file_path of
        Inl e \<Rightarrow> Inl e
      | Inr content \<Rightarrow>
          let lines = splitlines content; line_num = i_line issue - 1 in
          case getitem lines line_num of
            Inl e \<Rightarrow> Inl e
          | Inr line \<Rightarrow>
              (case first_replacement api_replacements line of
                 Some new_line \<Rightarrow>
                   Inr \<lparr>f_file = file_path, f_line = line_num + 1, f_original = strip line,
                         f_replacement = Some (strip new_line),
                         f_message = ''Replace deprecated API with modern equivalent''\<rparr>
               | None \<Rightarrow>
                   Inr (manual_fix file_path line_num line
                          ''Manual fix required for this deprecated API'')))"

definition fix_sendable_conformance :: "files \<Rightarrow> issue \<Rightarrow> error + fix_rec" where
  "fix_sendable_conformance fs issue =
     (let file_path = i_file issue in
      case read_file fs file_path of
        Inl e \<Rightarrow> Inl e
      | Inr content \<Rightarrow>
          let lines = readlines content; line_num = i_line issue - 1 in
          case getitem lines line_num of
            Inl e \<Rightarrow> Inl e
          | Inr line \<Rightarrow>
              (case re_search class_pattern line of
                 Some class_match \<Rightarrow>
                   let class_name = group line class_match 1;
                       new_line = (if sublist '':'' line
                                   then replace '':'' '': @unchecked Sendable,'' line
                                   else replace class_name (class_name @ '': @unchecked Sendable'') line)
                   in Inr \<lparr>f_file = file_path, f_line = line_num + 1, f_original = strip line,
                            f_replacement = Some (strip new_line),
                            f_message = ''Add @unchecked Sendable conformance to '' @ class_name\<rparr>
               | None \<Rightarrow>
                   Inr (manual_fix file_path line_num line
                          ''Manual fix required for Sendable conformance'')))"

text \<open>\<open>generate_fix\<close> returns a fix or, for an unknown type, a string.\<close>

datatype fix_result = FixDict fix_rec | Str string

definition generate_fix :: "files \<Rightarrow> issue \<Rightarrow> error + fix_result" where
  "generate_fix fs issue =
     (if i_type issue = ''buildExpression'' then map_sum id FixDict (fix_build_expression fs issue)
      else if i_type issue = ''deprecated_api'' then map_sum id FixDict (fix_deprecated_api fs issue)
      else if i_type issue = ''sendable_conformance''
        then map_sum id FixDict (fix_sendable_conformance fs issue)
      else Inr (Str (''No automatic fix available for issue type: '' @ i_type issue)))"

fun generate_fixes :: "files \<Rightarrow> issue list \<Rightarrow> error + fix_result list" where
  "generate_fixes fs [] = Inr []"
| "generate_fixes fs (issue # issues) =
     (case generate_fix fs issue of
        Inl e \<Rightarrow> Inl e
      | Inr f \<Rightarrow> (case generate_fixes fs issues of Inl e \<Rightarrow> Inl e | Inr fixes \<Rightarrow> Inr (f # fixes)))"

text \<open>
  \<open>suggest_fixes\<close>: with an index, the fix of that issue or the string
  \<open>Invalid issue index\<close>; without one (\<open>None\<close>), the fixes of all issues.
\<close>

datatype suggestion = Single fix_result | Many "fix_result list"

definition suggest_fixes :: "files \<Rightarrow> issue list \<Rightarrow> int option \<Rightarrow> error + suggestion" where
  "suggest_fixes fs issues issue_index =
     (case issue_index of
        Some i \<Rightarrow>
          if 0 \<le> i \<and> i < int (length issues)
          then map_sum id Single (generate_fix fs (issues ! nat i))
          else Inr (Single (Str ''Invalid issue index''))
      | None \<Rightarrow> map_sum id Many (generate_fixes fs issues))"

section \<open>Applying a fix\<close>

text \<open>
  \<open>apply_fix\<close> returns the files after the call and either the exception raised or the
  status string.  The file is opened for writing only after the assignment to
  \<open>lines[line_num]\<close>.  The platform decides \<open>os.linesep\<close>.
\<close>

definition apply_fix :: "platform \<Rightarrow> files \<Rightarrow> fix_rec \<Rightarrow> files \<times> (error + string)" where
  "apply_fix pf fs fx =
     (let file_path = f_file fx; line_num = f_line fx - 1 in
      case read_file fs file_path of
        Inl e \<Rightarrow> (fs, Inl e)
      | Inr content \<Rightarrow>
          (let lines = readlines content in
           case f_replacement fx of
             Some replacement \<Rightarrow>
               (case setitem lines line_num (replacement @ [LF]) of
                  Inl e \<Rightarrow> (fs, Inl e)
                | Inr lines' \<Rightarrow>
                    (write_lines pf fs file_path lines',
                     Inr (''Applied fix to '' @ file_path @ '' line '' @ str_of_int (f_line fx))))
           | None \<Rightarrow>
               (fs, Inr (''No automatic fix available for '' @ file_path @ '' line '' @
                         str_of_int (f_line fx)))))"

section \<open>Example inputs\<close>

text \<open>A file of ten lines whose line 5 is the \<open>VStack(spacing: 12)\<close> line of the scenario.\<close>

definition vstack_file :: string where
  "vstack_file =
     ''import SwiftUI'' @ [LF] @
     [LF] @
     ''struct ContentView: View {'' @ [LF] @
     ''  var body: some View {'' @ [LF] @
     ''    VStack(spacing: 12) {'' @ [LF] @
     ''      Text('' @ [DQ] @ ''Hello'' @ [DQ] @ '')'' @ [LF] @
     ''    }'' @ [LF] @
     ''  }'' @ [LF] @
     ''}'' @ [LF] @
     ''// end'' @ [LF]"

definition vstack_issue :: issue where
  "vstack_issue =
     \<lparr>i_file = ''a.swift'', i_line = 5, i_type = ''buildExpression'',
      i_message = ''Potential buildExpression issue with VStack spacing parameter'',
      i_suggestion = ''Replace with VStack {} and explicit Spacer().frame(height: X) elements''\<rparr>"

definition vstack_fix :: fix_rec where
  "vstack_fix =
     \<lparr>f_file = ''a.swift'', f_line = 5, f_original = ''VStack(spacing: 12) {'',
      f_replacement = Some (''VStack {'' @ [LF] @ ''        Spacer().frame(height: 12)''),
      f_message = ''Replace VStack(spacing: 12) with VStack and explicit Spacer''\<rparr>"

text \<open>A file of one line that reads the frame rate of a track.\<close>

definition rate_file :: string where
  "rate_file = ''let r = track.nominalFrameRate'' @ [LF]"

definition rate_issue :: issue where
  "rate_issue =
     \<lparr>i_file = ''a.swift'', i_line = 1, i_type = ''deprecated_api'',
      i_message = ''Potential deprecated API usage: .nominalFrameRate'',
      i_suggestion = ''Consider using videoTrack.load(.nominalFrameRate) instead''\<rparr>"

definition rate_fix :: fix_rec where
  "rate_fix =
     \<lparr>f_file = ''a.swift'', f_line = 1, f_original = ''let r = track.nominalFrameRate'',
      f_replacement = Some ''let r = try await track.load(.nominalFrameRate)'',
      f_message = ''Replace deprecated API with modern equivalent''\<rparr>"

text \<open>A file of three lines, the last without a newline, and a fix of two lines for line 2.\<close>

definition abc_file :: string where
  "abc_file = ''a'' @ [LF] @ ''b'' @ [LF] @ ''c''"

definition abc_fix :: fix_rec where
  "abc_fix =
     \<lparr>f_file = ''a.swift'', f_line = 2, f_original = ''b'',
      f_replacement = Some (''x'' @ [LF] @ ''y''), f_message = ''two lines for one''\<rparr>"

text \<open>A line that uses two deprecated APIs.\<close>

definition two_file :: string where
  "two_file = ''let s = AVAsset(url: u).naturalSize'' @ [LF]"

text \<open>A line that no detection pattern matches (\<open>durations\<close> is not \<open>duration\<close>).\<close>

definition stale_file :: string where
  "stale_file = ''let d = asset.durations'' @ [LF]"

definition stale_issue :: issue where
  "stale_issue =
     \<lparr>i_file = ''a.swift'', i_line = 1, i_type = ''deprecated_api'',
      i_message = ''Potential deprecated API usage: .duration'' @ [LF],
      i_suggestion = ''Consider using asset.load(.duration) instead''\<rparr>"

text \<open>Two lines without any of the patterns.\<close>

definition plain_file :: string where
  "plain_file = ''let x = 1'' @ [LF] @ ''let y = 2'' @ [LF]"

text \<open>A class with a conformance list in a file that uses \<open>async\<close>.\<close>

definition sendable_file :: string where
  "sendable_file =
     ''class Foo: Bar {'' @ [LF] @
     ''  func run() async {}'' @ [LF] @
     ''}'' @ [LF]"

text \<open>Lines for the table of fixes: one matching its last pattern, one matching two patterns.\<close>

definition cg_file :: string where
  "cg_file = ''let g = gen.copyCGImage(at: t, actualTime: &actual)'' @ [LF]"

definition both_file :: string where
  "both_file = ''let d = AVAsset(url: u); asset.duration'' @ [LF]"

definition duration_file :: string where
  "duration_file = ''let d = asset.duration'' @ [LF]"

definition dep_issue :: issue where
  "dep_issue =
     \<lparr>i_file = ''a.swift'', i_line = 1, i_type = ''deprecated_api'',
      i_message = ''Potential deprecated API usage'', i_suggestion = ''Consider the modern API''\<rparr>"

text \<open>Three lines that end in \<open>\r\n\<close>, the same three lines ending in \<open>\n\<close>, and a fix for line 2.\<close>

definition crlf_file :: string where
  "crlf_file = ''a'' @ [CR, LF] @ ''b'' @ [CR, LF] @ ''c'' @ [CR, LF]"

definition lf_file :: string where
  "lf_file = ''a'' @ [LF] @ ''b'' @ [LF] @ ''c'' @ [LF]"

definition upper_fix :: fix_rec where
  "upper_fix =
     \<lparr>f_file = ''a.swift'', f_line = 2, f_original = ''b'',
      f_replacement = Some ''B'', f_message = ''upper case''\<rparr>"

text \<open>Classes whose line has a colon that does not start a conformance list.\<close>

definition property_file :: string where
  "property_file =
     ''class Foo { var x: Int = 0 }'' @ [LF] @
     ''func run() async {}'' @ [LF]"

definition generic_file :: string where
  "generic_file =
     ''class Box<T: Equatable> {'' @ [LF] @
     ''  func run() async {}'' @ [LF] @
     ''}'' @ [LF]"

text \<open>A class whose name occurs a second time in its line.\<close>

definition twice_file :: string where
  "twice_file =
     ''class Node { var next = [Node]() }'' @ [LF] @
     ''func run() async {}'' @ [LF]"

definition class_issue :: "string \<Rightarrow> issue" where
  "class_issue name =
     \<lparr>i_file = ''a.swift'', i_line = 1, i_type = ''sendable_conformance'',
      i_message = ''Class '' @ name @ '' might need Sendable conformance for use in async contexts'',
      i_suggestion = ''Add '' @ [DQ] @ '': @unchecked Sendable'' @ [DQ] @
        '' to class definition or make class thread-safe''\<rparr>"

section \<open>Notions used in the statements\<close>

text \<open>The lines a synthesizer reads from the text, by issue type.\<close>

definition lines_read :: "string \<Rightarrow> string \<Rightarrow> string list" where
  "lines_read ty content = (if ty = ''deprecated_api'' then splitlines content else readlines content)"

text \<open>Whether a line matches one of the patterns by which the synthesizer of the type rewrites.\<close>

definition fix_pattern_matches :: "string \<Rightarrow> string \<Rightarrow> bool" where
  "fix_pattern_matches ty line =
     (if ty = ''buildExpression'' then
        sublist ''VStack(spacing:'' line \<or>
        (sublist ''Text('' line \<and> sublist [BSL, CHR ''(''] line \<and> sublist ''?'' line \<and>
         re_search conditional_pattern line \<noteq> None)
      else if ty = ''deprecated_api'' then
        list_ex (\<lambda>(pattern, replacement). re_search pattern line \<noteq> None) api_replacements
      else re_search class_pattern line \<noteq> None)"

section \<open>Lines of a text\<close>

text \<open>A terminated line: no newline but the last character.\<close>

definition line_nl :: "string \<Rightarrow> bool" where
  "line_nl l = (\<exists>b. l = b @ [LF] \<and> LF \<notin> set b)"

fun wf_lines :: "string list \<Rightarrow> bool" where
  "wf_lines [] = True"
| "wf_lines [l] = (line_nl l \<or> (l \<noteq> [] \<and> LF \<notin> set l))"
| "wf_lines (l # ls) = (line_nl l \<and> wf_lines ls)"

lemma readlines_Nil_iff: "readlines s = [] \<longleftrightarrow> s = []"
  by (cases s) (auto split: list.splits)

lemma line_nl_Cons: "c \<noteq> LF \<Longrightarrow> line_nl l \<Longrightarrow> line_nl (c # l)"
  unfolding line_nl_def by (metis append_Cons set_ConsD)

lemma line_nl_LF: "line_nl [LF]"
  unfolding line_nl_def by simp

lemma wf_lines_readlines: "wf_lines (readlines s)"
proof (induction s)
  case Nil
  show ?case by simp
next
  case (Cons c s)
  show ?case
  proof (cases "c = LF")
    case True
    with Cons show ?thesis
      by (cases "readlines s") (simp_all add: line_nl_LF)
  next
    case False
    show ?thesis
    proof (cases "readlines s")
      case Nil
      with False show ?thesis by simp
    next
      case (Cons l ls)
      with \<open>wf_lines (readlines s)\<close> False show ?thesis
        by (cases ls) (auto simp: line_nl_Cons)
    qed
  qed
qed

lemma readlines_line_nl: "line_nl l \<Longrightarrow> readlines (l @ t) = l # readlines t"
proof -
  have "LF \<notin> set b \<Longrightarrow> readlines ((b @ [LF]) @ t) = (b @ [LF]) # readlines t" for b
    by (induction b) auto
  then show "line_nl l \<Longrightarrow> readlines (l @ t) = l # readlines t"
    unfolding line_nl_def by blast
qed

lemma readlines_open: "l \<noteq> [] \<Longrightarrow> LF \<notin> set l \<Longrightarrow> readlines l = [l]"
proof (induction l)
  case Nil
  then show ?case by simp
next
  case (Cons c l)
  then show ?case by (cases l) auto
qed

lemma readlines_concat_nl:
  "\<forall>l \<in> set ls. line_nl l \<Longrightarrow> readlines (concat ls @ t) = ls @ readlines t"
  by (induction ls) (simp_all add: readlines_line_nl)

lemma readlines_concat_wf: "wf_lines ls \<Longrightarrow> readlines (concat ls) = ls"
proof (induction ls rule: wf_lines.induct)
  case 1
  show ?case by simp
next
  case (2 l)
  then show ?case
    using readlines_line_nl [of l "[]"] readlines_open [of l] by auto
next
  case (3 l v va)
  then show ?case
    using readlines_line_nl [of l "concat (v # va)"] by simp
qed

lemma wf_lines_drop: "wf_lines ls \<Longrightarrow> wf_lines (drop n ls)"
proof (induction ls arbitrary: n rule: wf_lines.induct)
  case 1
  show ?case by simp
next
  case (2 l)
  then show ?case by (cases n) simp_all
next
  case (3 l v va)
  then show ?case by (cases n) simp_all
qed

lemma wf_lines_take_nl: "wf_lines ls \<Longrightarrow> n < length ls \<Longrightarrow> \<forall>l \<in> set (take n ls). line_nl l"
proof (induction ls arbitrary: n rule: wf_lines.induct)
  case 1
  then show ?case by simp
next
  case (2 l)
  then show ?case by simp
next
  case (3 l v va)
  then show ?case by (cases n) auto
qed

lemma readlines_append_nl: "readlines ((r @ [LF]) @ t) = readlines (r @ [LF]) @ readlines t"
  by (induction r) (auto simp: readlines_Nil_iff split: list.splits)

lemma length_readlines_nl: "length (readlines (r @ [LF])) = Suc (count_list r LF)"
  by (induction r) (auto simp: readlines_Nil_iff split: list.splits)

lemma hd_readlines_nl:
  "\<exists>rest. readlines (r @ [LF]) = (takeWhile (\<lambda>c. c \<noteq> LF) r @ [LF]) # rest"
  by (induction r) (auto simp: readlines_Nil_iff split: list.splits)

text \<open>Overwriting line \<open>n\<close> (from 0) of a text by \<open>r\<close> and a newline.\<close>

lemma readlines_rewrite:
  assumes n: "n < length (readlines content)"
  shows "readlines (concat ((readlines content)[n := r @ [LF]])) =
           take n (readlines content) @ readlines (r @ [LF]) @ drop (Suc n) (readlines content)"
proof -
  let ?L = "readlines content"
  have wf: "wf_lines ?L" by (rule wf_lines_readlines)
  have upd: "?L[n := r @ [LF]] = take n ?L @ (r @ [LF]) # drop (Suc n) ?L"
    using n by (rule upd_conv_take_nth_drop)
  have "readlines (concat (?L[n := r @ [LF]])) =
          readlines (concat (take n ?L) @ ((r @ [LF]) @ concat (drop (Suc n) ?L)))"
    by (simp add: upd)
  also have "\<dots> = take n ?L @ readlines ((r @ [LF]) @ concat (drop (Suc n) ?L))"
    using wf_lines_take_nl [OF wf n] by (rule readlines_concat_nl)
  also have "readlines ((r @ [LF]) @ concat (drop (Suc n) ?L)) =
               readlines (r @ [LF]) @ readlines (concat (drop (Suc n) ?L))"
    by (rule readlines_append_nl)
  also have "readlines (concat (drop (Suc n) ?L)) = drop (Suc n) ?L"
    using wf_lines_drop [OF wf] by (rule readlines_concat_wf)
  finally show ?thesis .
qed

lemma py_index_in_range: "1 \<le> k \<Longrightarrow> k \<le> int (length xs) \<Longrightarrow> py_index xs (k - 1) = Some (nat (k - 1))"
  by (simp add: py_index_def)

lemma py_index_beyond: "int (length xs) < k \<Longrightarrow> py_index xs (k - 1) = None"
  by (simp add: py_index_def)


section \<open>Newline translation\<close>

lemma universal_newlines_no_CR: "CR \<notin> set (universal_newlines s)"
  by (induction s rule: universal_newlines.induct) (auto split: list.splits)

lemma universal_newlines_id: "CR \<notin> set s \<Longrightarrow> universal_newlines s = s"
  by (induction s) auto

lemma universal_newlines_append:
  "x = [] \<or> last x \<noteq> CR \<Longrightarrow>
     universal_newlines (x @ y) = universal_newlines x @ universal_newlines y"
proof (induction x rule: universal_newlines.induct)
  case 1
  show ?case by simp
next
  case (2 c cs)
  show ?case
  proof (cases "c = CR")
    case False
    from "2.prems" have "cs = [] \<or> last cs \<noteq> CR" by (cases cs) auto
    with "2.IH"(3) [OF False] False show ?thesis by simp
  next
    case True
    with "2.prems" obtain d ds where cs: "cs = d # ds" by (cases cs) auto
    show ?thesis
    proof (cases "d = LF")
      case dLF: True
      from "2.prems" cs have "ds = [] \<or> last ds \<noteq> CR" by (cases ds) auto
      with "2.IH"(1) [OF True cs dLF] True cs dLF show ?thesis by simp
    next
      case dnot: False
      from "2.prems" cs have "d # ds = [] \<or> last (d # ds) \<noteq> CR" by simp
      with "2.IH"(2) [OF True cs dnot] True cs dnot show ?thesis by simp
    qed
  qed
qed

lemma universal_newlines_ends:
  "\<exists>x'. universal_newlines (x @ [LF]) = x' @ [LF]"
proof (induction x rule: universal_newlines.induct)
  case 1
  show ?case by simp
next
  case (2 c cs)
  show ?case
  proof (cases "c = CR")
    case False
    with 2 show ?thesis by (auto intro: exI [of _ "c # _"])
  next
    case True
    show ?thesis
    proof (cases cs)
      case Nil
      with True show ?thesis by simp
    next
      case (Cons d ds)
      with True 2 show ?thesis
        by (cases "d = LF") (auto simp: Cons_eq_append_conv)
    qed
  qed
qed

lemma write_newlines_append:
  "write_newlines ls (x @ y) = write_newlines ls x @ write_newlines ls y"
  by (simp add: write_newlines_def)

lemma write_newlines_Nil: "write_newlines ls [] = []"
  by (simp add: write_newlines_def)

lemma write_newlines_Cons:
  "write_newlines ls (c # s) = (if c = LF then ls else [c]) @ write_newlines ls s"
  by (simp add: write_newlines_def)

lemma read_written:
  "CR \<notin> set a \<Longrightarrow>
     universal_newlines (write_newlines (os_linesep pf) a @ y) = a @ universal_newlines y"
proof (induction a)
  case Nil
  show ?case by (simp add: write_newlines_def)
next
  case (Cons c a)
  then have IH: "universal_newlines (write_newlines (os_linesep pf) a @ y) = a @ universal_newlines y"
    and c: "c \<noteq> CR"
    by auto
  show ?case
  proof (cases "c = LF")
    case True
    then show ?thesis
      using IH by (cases pf) (simp_all add: write_newlines_Cons)
  next
    case False
    then show ?thesis
      using IH c by (simp add: write_newlines_Cons)
  qed
qed

lemma read_written_whole:
  "CR \<notin> set a \<Longrightarrow> universal_newlines (write_newlines (os_linesep pf) a) = a"
  using read_written [of a pf "[]"] by simp

lemma write_newlines_posix: "write_newlines (os_linesep Posix) s = s"
  by (induction s) (simp_all add: write_newlines_Nil write_newlines_Cons)

lemma written_line_ends:
  "\<exists>r'. universal_newlines (write_newlines (os_linesep pf) (r @ [LF])) = r' @ [LF]"
proof (cases pf)
  case Posix
  then show ?thesis
    using universal_newlines_ends [of "write_newlines [LF] r"]
    by (simp add: write_newlines_def)
next
  case Nt
  then show ?thesis
    using universal_newlines_ends [of "write_newlines [CR, LF] r @ [CR]"]
    by (simp add: write_newlines_def)
qed

lemma last_written_line:
  "last (write_newlines (os_linesep pf) (r @ [LF])) \<noteq> CR"
  by (cases pf) (simp_all add: write_newlines_def)

lemma written_line_nonempty: "write_newlines (os_linesep pf) (r @ [LF]) \<noteq> []"
  by (cases pf) (simp_all add: write_newlines_def)

lemma concat_readlines: "concat (readlines s) = s"
  by (induction s) (auto split: list.splits)

lemma set_take_readlines: "set (concat (take n (readlines s))) \<subseteq> set s"
proof -
  have "set (concat (take n (readlines s))) \<subseteq> set (concat (readlines s))"
    by (auto dest: in_set_takeD)
  then show ?thesis by (simp only: concat_readlines)
qed

lemma set_drop_readlines: "set (concat (drop n (readlines s))) \<subseteq> set s"
proof -
  have "set (concat (drop n (readlines s))) \<subseteq> set (concat (readlines s))"
    by (auto dest: in_set_dropD)
  then show ?thesis by (simp only: concat_readlines)
qed

text \<open>
  What is read back after line \<open>n\<close> (from 0) of a text without carriage returns has been
  overwritten and the lines written.
\<close>

lemma read_back:
  assumes t: "CR \<notin> set t" and n: "n < length (readlines t)"
  shows "universal_newlines (write_newlines (os_linesep pf) (concat ((readlines t)[n := r @ [LF]]))) =
           concat (take n (readlines t)) @
           universal_newlines (write_newlines (os_linesep pf) (r @ [LF])) @
           concat (drop (Suc n) (readlines t))"
proof -
  let ?L = "readlines t"
  let ?A = "concat (take n ?L)"
  let ?C = "concat (drop (Suc n) ?L)"
  let ?out = "write_newlines (os_linesep pf)"
  have A: "CR \<notin> set ?A" using set_take_readlines [of n t] t by blast
  have C: "CR \<notin> set ?C" using set_drop_readlines [of "Suc n" t] t by blast
  have "concat (?L[n := r @ [LF]]) = ?A @ (r @ [LF]) @ ?C"
    by (simp add: upd_conv_take_nth_drop [OF n])
  then have "?out (concat (?L[n := r @ [LF]])) = ?out ?A @ ?out (r @ [LF]) @ ?out ?C"
    by (simp only: write_newlines_append)
  then have "universal_newlines (?out (concat (?L[n := r @ [LF]]))) =
      ?A @ universal_newlines (?out (r @ [LF]) @ ?out ?C)"
    by (simp only: read_written [OF A])
  also have "universal_newlines (?out (r @ [LF]) @ ?out ?C) =
      universal_newlines (?out (r @ [LF])) @ universal_newlines (?out ?C)"
    using last_written_line [of pf r] by (intro universal_newlines_append) simp
  also have "universal_newlines (?out ?C) = ?C"
    using C by (rule read_written_whole)
  finally show ?thesis .
qed

lemma readlines_read_back:
  assumes t: "CR \<notin> set t" and n: "n < length (readlines t)"
  shows "readlines (universal_newlines
             (write_newlines (os_linesep pf) (concat ((readlines t)[n := r @ [LF]])))) =
           take n (readlines t) @
           readlines (universal_newlines (write_newlines (os_linesep pf) (r @ [LF]))) @
           drop (Suc n) (readlines t)"
proof -
  obtain r' where r': "universal_newlines (write_newlines (os_linesep pf) (r @ [LF])) = r' @ [LF]"
    using written_line_ends by blast
  have "universal_newlines (write_newlines (os_linesep pf) (concat ((readlines t)[n := r @ [LF]]))) =
      concat ((readlines t)[n := r' @ [LF]])"
    unfolding read_back [OF t n] r' by (simp add: upd_conv_take_nth_drop [OF n])
  then show ?thesis
    using readlines_rewrite [OF n, of r'] by (simp only: r')
qed

section \<open>Properties of the matcher\<close>

subsection \<open>What a successful match has consumed\<close>

lemma re_m_Star:
  "re_m (Star c # r) s i st g = Some y \<Longrightarrow>
     \<exists>k \<le> length s. (\<forall>x \<in> set (take k s). cmatch c x) \<and> re_m r (drop k s) (i + k) st g = Some y"
proof (induction s arbitrary: i)
  case Nil
  then show ?case by simp
next
  case (Cons x xs)
  show ?case
  proof (cases "cmatch c x \<and> re_m (Star c # r) xs (Suc i) st g = Some y")
    case True
    with Cons.IH [of "Suc i"] obtain k where "k \<le> length xs"
      "\<forall>x \<in> set (take k xs). cmatch c x" "re_m r (drop k xs) (Suc i + k) st g = Some y"
      by blast
    with True show ?thesis
      by (intro exI [of _ "Suc k"]) simp
  next
    case False
    with Cons.prems have "re_m r (x # xs) i st g = Some y"
      by (auto split: if_splits option.splits)
    then show ?thesis
      by (intro exI [of _ 0]) simp
  qed
qed

lemma re_m_Plus:
  "re_m (Plus c # r) s i st g = Some y \<Longrightarrow>
     \<exists>k. 0 < k \<and> k \<le> length s \<and> (\<forall>x \<in> set (take k s). cmatch c x) \<and>
         re_m r (drop k s) (i + k) st g = Some y"
proof (cases s)
  case Nil
  assume "re_m (Plus c # r) s i st g = Some y"
  with Nil show ?thesis by simp
next
  case (Cons x xs)
  assume "re_m (Plus c # r) s i st g = Some y"
  with Cons have x: "cmatch c x" and "re_m (Star c # r) xs (Suc i) st g = Some y"
    by (auto split: if_splits)
  from re_m_Star [OF this(2)] obtain k where "k \<le> length xs"
    "\<forall>x \<in> set (take k xs). cmatch c x" "re_m r (drop k xs) (Suc i + k) st g = Some y"
    by blast
  with x Cons show ?thesis
    by (intro exI [of _ "Suc k"]) simp
qed

lemma re_m_LazyStar:
  "re_m (LazyStar c # r) s i st g = Some y \<Longrightarrow>
     \<exists>k \<le> length s. (\<forall>x \<in> set (take k s). cmatch c x) \<and> re_m r (drop k s) (i + k) st g = Some y"
proof (induction s arbitrary: i)
  case Nil
  then show ?case by simp
next
  case (Cons x xs)
  show ?case
  proof (cases "re_m r (x # xs) i st g")
    case (Some z)
    with Cons.prems have "re_m r (x # xs) i st g = Some y" by simp
    then show ?thesis
      by (intro exI [of _ 0]) simp
  next
    case None
    with Cons.prems have x: "cmatch c x" and "re_m (LazyStar c # r) xs (Suc i) st g = Some y"
      by (auto split: if_splits)
    from Cons.IH [OF this(2)] obtain k where "k \<le> length xs"
      "\<forall>x \<in> set (take k xs). cmatch c x" "re_m r (drop k xs) (Suc i + k) st g = Some y"
      by blast
    with x show ?thesis
      by (intro exI [of _ "Suc k"]) simp
  qed
qed

lemma re_m_LazyPlus:
  "re_m (LazyPlus c # r) s i st g = Some y \<Longrightarrow>
     \<exists>k. 0 < k \<and> k \<le> length s \<and> (\<forall>x \<in> set (take k s). cmatch c x) \<and>
         re_m r (drop k s) (i + k) st g = Some y"
proof (cases s)
  case Nil
  assume "re_m (LazyPlus c # r) s i st g = Some y"
  with Nil show ?thesis by simp
next
  case (Cons x xs)
  assume "re_m (LazyPlus c # r) s i st g = Some y"
  with Cons have x: "cmatch c x" and "re_m (LazyStar c # r) xs (Suc i) st g = Some y"
    by (auto split: if_splits)
  from re_m_LazyStar [OF this(2)] obtain k where "k \<le> length xs"
    "\<forall>x \<in> set (take k xs). cmatch c x" "re_m r (drop k xs) (Suc i + k) st g = Some y"
    by blast
  with x Cons show ?thesis
    by (intro exI [of _ "Suc k"]) simp
qed

lemma re_m_lits:
  "re_m (lits w @ r) s i st g = Some y \<Longrightarrow>
     prefix w s \<and> re_m r (drop (length w) s) (i + length w) st g = Some y"
proof (induction w arbitrary: s i)
  case Nil
  then show ?case by simp
next
  case (Cons c w)
  show ?case
  proof (cases s)
    case Nil
    with Cons.prems show ?thesis by simp
  next
    case (Cons x xs)
    with Cons.prems have x: "x = c" and "re_m (lits w @ r) xs (Suc i) st g = Some y"
      by (auto split: if_splits)
    from Cons.IH [OF this(2)] x Cons show ?thesis by simp
  qed
qed

text \<open>A match ends at or after its start and within the text.\<close>

lemma re_m_bounds: "re_m r s i st g = Some (e, g') \<Longrightarrow> i \<le> e \<and> e \<le> i + length s"
  by (induction r s i st g rule: re_m.induct) (fastforce split: if_splits option.splits)+

text \<open>Items without the close of group \<open>n\<close> leave its span as it was.\<close>

lemma re_m_frame:
  "re_m r s i st g = Some (e, g') \<Longrightarrow> GClose n \<notin> set r \<Longrightarrow> g' n = g n"
  by (induction r s i st g rule: re_m.induct) (auto split: if_splits option.splits)

text \<open>\<open>re.match(r'^\s*', line)\<close> always matches, so its \<open>group(0)\<close> is always there.\<close>

lemma re_m_Star_total: "\<exists>y. re_m [Star c] s i st g = Some y"
  by (induction s arbitrary: i) (auto split: option.splits)

lemma indent_pattern_matches: "re_match indent_pattern line \<noteq> None"
  using re_m_Star_total [of Space line 0 "\<lambda>_. 0" "\<lambda>_. None"]
  by (auto simp: re_match_def match_at_def indent_pattern_def)

text \<open>The patterns the program scans with consume at least one character.\<close>

lemma re_m_One_consumes: "re_m (One c # r) s i st g = Some (e, g') \<Longrightarrow> i < e"
proof (cases s)
  case Nil
  assume "re_m (One c # r) s i st g = Some (e, g')"
  with Nil show ?thesis by simp
next
  case (Cons x xs)
  assume "re_m (One c # r) s i st g = Some (e, g')"
  with Cons have "re_m r xs (Suc i) st g = Some (e, g')"
    by (simp split: if_splits)
  from re_m_bounds [OF this] show ?thesis by simp
qed

lemma re_m_group_consumes: "re_m (GOpen n # Plus c # r) s i st g = Some (e, g') \<Longrightarrow> i < e"
proof -
  assume "re_m (GOpen n # Plus c # r) s i st g = Some (e, g')"
  then have "re_m (Plus c # r) s i (st(n := i)) g = Some (e, g')" by simp
  from re_m_Plus [OF this] obtain k where "0 < k"
    "re_m r (drop k s) (i + k) (st(n := i)) g = Some (e, g')" by blast
  with re_m_bounds [OF this(2)] show ?thesis by simp
qed

lemma re_m_consumes:
  assumes "p \<in> {vstack_pattern, text_interp_pattern, class_pattern} \<union>
               fst ` set deprecated_apis \<union> fst ` set api_replacements"
    and "match_at p s i = Some m"
  shows "i < m_end m"
proof -
  from assms(1) have "(\<exists>c r. p = One c # r) \<or> (\<exists>n c r. p = GOpen n # Plus c # r)"
    by (auto simp: vstack_pattern_def text_interp_pattern_def class_pattern_def
        deprecated_apis_def api_replacements_def)
  moreover from assms(2) obtain e g where
    "re_m p s i (\<lambda>_. 0) (\<lambda>_. None) = Some (e, g)" and "m_end m = e"
    by (auto simp: match_at_def split: option.splits)
  ultimately show ?thesis
    using re_m_One_consumes re_m_group_consumes by metis
qed

lemma search_from_match_at:
  "search_from r s i = Some m \<Longrightarrow> \<exists>j \<le> length s. match_at r (drop j s) (i + j) = Some m"
proof (induction s arbitrary: i)
  case Nil
  then show ?case by simp
next
  case (Cons x xs)
  show ?case
  proof (cases "match_at r (x # xs) i")
    case (Some m')
    with Cons.prems have "match_at r (x # xs) i = Some m" by simp
    then show ?thesis by (intro exI [of _ 0]) simp
  next
    case None
    with Cons.prems have "search_from r xs (Suc i) = Some m" by simp
    from Cons.IH [OF this] obtain j where "j \<le> length xs" "match_at r (drop j xs) (Suc i + j) = Some m"
      by blast
    then show ?thesis by (intro exI [of _ "Suc j"]) simp
  qed
qed

lemma re_search_match_at:
  "re_search r s = Some m \<Longrightarrow> \<exists>j \<le> length s. match_at r (drop j s) j = Some m"
  unfolding re_search_def using search_from_match_at [of r s 0 m] by simp


subsection \<open>Searching, scanning and substituting\<close>

lemma search_from_scan:
  "search_from r s i = Some m \<Longrightarrow> \<exists>ms. scan r s i = m # ms"
proof (induction s arbitrary: i)
  case Nil
  then show ?case by simp
next
  case (Cons x xs)
  then show ?case by (cases "match_at r (x # xs) i") auto
qed

lemma match_at_start: "match_at r s i = Some m \<Longrightarrow> m_start m = i"
  by (auto simp: match_at_def split: option.splits)

lemma sublist_slice: "sublist (slice s a b) s"
proof -
  have "drop a s = take (b - a) (drop a s) @ drop (b - a) (drop a s)"
    by (simp only: append_take_drop_id)
  then have "s = take a s @ take (b - a) (drop a s) @ drop (b - a) (drop a s)"
    by (metis append_take_drop_id)
  then show ?thesis
    unfolding slice_def sublist_def by blast
qed

text \<open>Where \<open>re.search\<close> finds a match, \<open>re.sub\<close> puts the expansion of that match.\<close>

lemma re_sub_first:
  assumes "re_search r s = Some m"
  shows "\<exists>post. re_sub r t s = take (m_start m) s @ expand s m t @ post"
proof -
  from assms obtain ms where "finditer r s = m # ms"
    unfolding re_search_def finditer_def using search_from_scan by blast
  then show ?thesis
    by (simp add: re_sub_def slice_def)
qed

subsection \<open>Stripping keeps what has no whitespace at its ends\<close>

lemma dropWhile_keeps:
  "x \<noteq> [] \<Longrightarrow> \<not> P (hd x) \<Longrightarrow> \<exists>p'. dropWhile P (p @ x @ q) = p' @ x @ q"
proof (induction p)
  case Nil
  then have "dropWhile P (x @ q) = x @ q" by (cases x) auto
  then show ?case by (intro exI [of _ "[]"]) simp
next
  case (Cons a p)
  then obtain p' where "dropWhile P (p @ x @ q) = p' @ x @ q" by blast
  then show ?case
    by (cases "P a") (auto intro: exI [of _ "a # p"])
qed

lemma strip_keeps:
  assumes "x \<noteq> []" and "\<not> is_space (hd x)" and "\<not> is_space (last x)"
  shows "\<exists>p' q'. strip (p @ x @ q) = p' @ x @ q'"
proof -
  from dropWhile_keeps [where P = is_space and x = x and p = p and q = q, OF assms(1,2)] obtain p' where
    l: "dropWhile is_space (p @ x @ q) = p' @ x @ q" by blast
  have rx: "rev x \<noteq> []" "\<not> is_space (hd (rev x))"
    using assms(1,3) by (simp_all add: hd_rev)
  from dropWhile_keeps [where P = is_space and x = "rev x" and p = "rev q" and q = "rev p'", OF rx]
  obtain q' where
    "dropWhile is_space (rev q @ rev x @ rev p') = q' @ rev x @ rev p'" by blast
  then have "strip (p @ x @ q) = p' @ x @ rev q'"
    by (simp add: strip_def l)
  then show ?thesis by blast
qed

lemma strip_keeps_sublist:
  "sublist x y \<Longrightarrow> x \<noteq> [] \<Longrightarrow> \<not> is_space (hd x) \<Longrightarrow> \<not> is_space (last x) \<Longrightarrow>
     sublist x (strip y)"
  unfolding sublist_def using strip_keeps by metis

subsection \<open>Character classes\<close>

lemma is_word_not_space: "is_word c \<Longrightarrow> \<not> is_space c"
  unfolding is_word_def is_space_def Let_def by arith

section \<open>The applier\<close>

text \<open>
  C4, as the claim states it, fails.  On POSIX the three lines of \<open>crlf_file\<close> end in
  \<open>\r\n\<close>; after the fix for line 2 the file is \<open>a\nB\nc\n\<close>: lines 1 and 3, which the fix
  does not target, have lost their \<open>\r\<close>.  On Windows the lines of \<open>lf_file\<close> end in
  \<open>\n\<close>, and after the same fix lines 1 and 3 end in \<open>\r\n\<close>.
\<close>

theorem apply_fix_frame_counterexample:
  "length (readlines (universal_newlines crlf_file)) = 3 \<and>
   f_line upper_fix = 2 \<and> f_replacement upper_fix = Some ''B'' \<and>
   crlf_file = ''a'' @ [CR, LF] @ ''b'' @ [CR, LF] @ ''c'' @ [CR, LF] \<and>
   snd (apply_fix Posix [''a.swift'' \<mapsto> crlf_file] upper_fix) =
     Inr ''Applied fix to a.swift line 2'' \<and>
   fst (apply_fix Posix [''a.swift'' \<mapsto> crlf_file] upper_fix) ''a.swift'' =
     Some (''a'' @ [LF] @ ''B'' @ [LF] @ ''c'' @ [LF]) \<and>
   length (readlines (universal_newlines lf_file)) = 3 \<and>
   lf_file = ''a'' @ [LF] @ ''b'' @ [LF] @ ''c'' @ [LF] \<and>
   fst (apply_fix Nt [''a.swift'' \<mapsto> lf_file] upper_fix) ''a.swift'' =
     Some (''a'' @ [CR, LF] @ ''B'' @ [CR, LF] @ ''c'' @ [CR, LF])"
  by code_simp

text \<open>
  C4, amended.  Take the lines of a file as text mode reads them (\<open>\r\n\<close> and \<open>\r\<close> read as
  \<open>\n\<close>), \<open>M\<close> of them, and let the fix carry a replacement \<open>r\<close> for line \<open>N\<close> with
  \<open>1 \<le> N \<le> M\<close>.  Then \<open>apply_fix\<close> succeeds and writes only that file, and the file read
  back has the \<open>N - 1\<close> lines before line \<open>N\<close>, unchanged, then the lines of \<open>r\<close> followed
  by a newline as they are read back, then the lines after line \<open>N\<close>, unchanged.  When \<open>r\<close>
  has no carriage return, its lines are \<open>K = 1 +\<close> (number of newlines in \<open>r\<close>), the file
  read back has \<open>M + K - 1\<close> lines, and for a replacement without newline they are the old
  lines with line \<open>N\<close> overwritten.  The characters stored for the other lines are their
  old ones when \<open>os.linesep\<close> is \<open>\n\<close> and the file has no carriage return: then the new
  content is the old content with the characters of line \<open>N\<close> replaced by \<open>r\<close> and a newline.
\<close>

theorem apply_fix_frame:
  assumes target: "fs (f_file fx) = Some raw"
    and repl: "f_replacement fx = Some r"
    and lo: "1 \<le> f_line fx"
    and hi: "f_line fx \<le> int (length (readlines (universal_newlines raw)))"
  shows "\<exists>raw'.
           apply_fix pf fs fx =
             (fs(f_file fx \<mapsto> raw'),
              Inr (''Applied fix to '' @ f_file fx @ '' line '' @ str_of_int (f_line fx))) \<and>
           readlines (universal_newlines raw') =
             take (nat (f_line fx - 1)) (readlines (universal_newlines raw)) @
             readlines (universal_newlines (write_newlines (os_linesep pf) (r @ [LF]))) @
             drop (nat (f_line fx)) (readlines (universal_newlines raw)) \<and>
           (CR \<notin> set r \<longrightarrow>
              readlines (universal_newlines raw') =
                take (nat (f_line fx - 1)) (readlines (universal_newlines raw)) @
                readlines (r @ [LF]) @
                drop (nat (f_line fx)) (readlines (universal_newlines raw)) \<and>
              length (readlines (r @ [LF])) = Suc (count_list r LF) \<and>
              length (readlines (universal_newlines raw')) =
                length (readlines (universal_newlines raw)) + Suc (count_list r LF) - 1 \<and>
              (LF \<notin> set r \<longrightarrow>
                 readlines (universal_newlines raw') =
                   (readlines (universal_newlines raw))[nat (f_line fx - 1) := r @ [LF]])) \<and>
           (pf = Posix \<and> CR \<notin> set raw \<longrightarrow>
              raw = concat (take (nat (f_line fx - 1)) (readlines raw)) @
                    readlines raw ! nat (f_line fx - 1) @
                    concat (drop (nat (f_line fx)) (readlines raw)) \<and>
              raw' = concat (take (nat (f_line fx - 1)) (readlines raw)) @
                     (r @ [LF]) @
                     concat (drop (nat (f_line fx)) (readlines raw)))"
proof -
  let ?t = "universal_newlines raw"
  let ?L = "readlines ?t"
  let ?n = "nat (f_line fx - 1)"
  let ?out = "write_newlines (os_linesep pf)"
  let ?raw' = "?out (concat (?L[?n := r @ [LF]]))"
  have n: "?n < length ?L" using lo hi by linarith
  have Sn: "Suc ?n = nat (f_line fx)" using lo by linarith
  have t: "CR \<notin> set ?t" by (rule universal_newlines_no_CR)
  have idx: "py_index ?L (f_line fx - 1) = Some ?n"
    using lo hi by (rule py_index_in_range)
  have run: "apply_fix pf fs fx =
      (fs(f_file fx \<mapsto> ?raw'),
       Inr (''Applied fix to '' @ f_file fx @ '' line '' @ str_of_int (f_line fx)))"
    by (simp add: apply_fix_def read_file_def write_lines_def target repl setitem_def idx Let_def)
  have reread: "readlines (universal_newlines ?raw') =
      take ?n ?L @ readlines (universal_newlines (?out (r @ [LF]))) @ drop (nat (f_line fx)) ?L"
    using readlines_read_back [OF t n, of pf r] by (simp only: Sn)
  have clean: "readlines (universal_newlines ?raw') =
          take ?n ?L @ readlines (r @ [LF]) @ drop (nat (f_line fx)) ?L \<and>
        length (readlines (r @ [LF])) = Suc (count_list r LF) \<and>
        length (readlines (universal_newlines ?raw')) = length ?L + Suc (count_list r LF) - 1 \<and>
        (LF \<notin> set r \<longrightarrow> readlines (universal_newlines ?raw') = ?L[?n := r @ [LF]])"
    if r: "CR \<notin> set r"
  proof -
    from r have "CR \<notin> set (r @ [LF])" by simp
    then have same: "universal_newlines (?out (r @ [LF])) = r @ [LF]"
      by (rule read_written_whole)
    have lines: "readlines (universal_newlines ?raw') =
        take ?n ?L @ readlines (r @ [LF]) @ drop (nat (f_line fx)) ?L"
      using reread by (simp only: same)
    have k: "length (readlines (r @ [LF])) = Suc (count_list r LF)"
      by (rule length_readlines_nl)
    have len: "length (readlines (universal_newlines ?raw')) = length ?L + Suc (count_list r LF) - 1"
      using n lo by (simp add: lines k Sn [symmetric])
    have single: "readlines (universal_newlines ?raw') = ?L[?n := r @ [LF]]" if "LF \<notin> set r"
    proof -
      have "line_nl (r @ [LF])" using that unfolding line_nl_def by blast
      from readlines_line_nl [OF this, of "[]"] have one: "readlines (r @ [LF]) = [r @ [LF]]"
        by simp
      have "?L[?n := r @ [LF]] = take ?n ?L @ (r @ [LF]) # drop (nat (f_line fx)) ?L"
        using upd_conv_take_nth_drop [OF n, of "r @ [LF]"] by (simp only: Sn)
      also have "\<dots> = readlines (universal_newlines ?raw')"
        by (simp only: lines one append_Cons append_Nil)
      finally show ?thesis by (rule sym)
    qed
    from lines k len single show ?thesis by blast
  qed
  have bytes: "raw = concat (take ?n (readlines raw)) @ readlines raw ! ?n @
                     concat (drop (nat (f_line fx)) (readlines raw)) \<and>
               ?raw' = concat (take ?n (readlines raw)) @ (r @ [LF]) @
                       concat (drop (nat (f_line fx)) (readlines raw))"
    if pf: "pf = Posix" and raw: "CR \<notin> set raw"
  proof -
    from raw have same: "?t = raw" by (rule universal_newlines_id)
    from n same have n': "?n < length (readlines raw)" by simp
    have "concat (readlines raw) = raw" by (rule concat_readlines)
    moreover have "readlines raw =
        take ?n (readlines raw) @ readlines raw ! ?n # drop (nat (f_line fx)) (readlines raw)"
      using id_take_nth_drop [OF n'] by (simp only: Sn)
    ultimately have old: "raw = concat (take ?n (readlines raw)) @ readlines raw ! ?n @
        concat (drop (nat (f_line fx)) (readlines raw))"
      by (metis concat.simps(2) concat_append)
    have "?raw' = concat ((readlines raw)[?n := r @ [LF]])"
      by (simp only: pf write_newlines_posix same)
    also have "\<dots> = concat (take ?n (readlines raw)) @ (r @ [LF]) @
        concat (drop (nat (f_line fx)) (readlines raw))"
      using upd_conv_take_nth_drop [OF n', of "r @ [LF]"] by (simp add: Sn)
    finally show ?thesis using old by blast
  qed
  from run reread clean bytes show ?thesis by blast
qed

theorem apply_fix_frame_witness:
  "[''a.swift'' \<mapsto> abc_file] (f_file abc_fix) = Some abc_file \<and>
   f_replacement abc_fix = Some (''x'' @ [LF] @ ''y'') \<and>
   1 \<le> f_line abc_fix \<and>
   f_line abc_fix \<le> int (length (readlines (universal_newlines abc_file))) \<and>
   CR \<notin> set (''x'' @ [LF] @ ''y'') \<and> CR \<notin> set abc_file \<and>
   (\<exists>raw'.
      fst (apply_fix Posix [''a.swift'' \<mapsto> abc_file] abc_fix) ''a.swift'' = Some raw' \<and>
      readlines (universal_newlines raw') = [''a'' @ [LF], ''x'' @ [LF], ''y'' @ [LF], ''c''] \<and>
      length (readlines (universal_newlines raw')) = 3 + 2 - 1 \<and>
      raw' = ''a'' @ [LF] @ ''x'' @ [LF] @ ''y'' @ [LF] @ ''c'')"
proof -
  let ?fs = "[''a.swift'' \<mapsto> abc_file]"
  let ?r = "''x'' @ [LF] @ ''y''"
  have h1: "?fs (f_file abc_fix) = Some abc_file"
    by (simp add: abc_fix_def)
  have h2: "f_replacement abc_fix = Some ?r"
    by (simp add: abc_fix_def)
  have h3: "1 \<le> f_line abc_fix"
    by (simp add: abc_fix_def)
  have h4: "f_line abc_fix \<le> int (length (readlines (universal_newlines abc_file)))"
    by (simp add: abc_fix_def abc_file_def)
  have h5: "CR \<notin> set ?r" by simp
  have h6: "CR \<notin> set abc_file" by (simp add: abc_file_def)
  have f: "f_file abc_fix = ''a.swift''" and l: "f_line abc_fix = 2"
    by (simp_all add: abc_fix_def)
  have same: "universal_newlines abc_file = abc_file"
    using h6 by (rule universal_newlines_id)
  from apply_fix_frame [where fs = ?fs and fx = abc_fix and pf = Posix, OF h1 h2 h3 h4] h5 h6
  obtain raw' where
    run: "fst (apply_fix Posix ?fs abc_fix) = ?fs(f_file abc_fix \<mapsto> raw')"
    and lines: "readlines (universal_newlines raw') =
      take (nat (f_line abc_fix - 1)) (readlines (universal_newlines abc_file)) @
      readlines (?r @ [LF]) @ drop (nat (f_line abc_fix)) (readlines (universal_newlines abc_file))"
    and bytes: "raw' = concat (take (nat (f_line abc_fix - 1)) (readlines abc_file)) @
      (?r @ [LF]) @ concat (drop (nat (f_line abc_fix)) (readlines abc_file))"
    by auto
  have a: "fst (apply_fix Posix ?fs abc_fix) ''a.swift'' = Some raw'"
    by (simp add: run f)
  have b: "readlines (universal_newlines raw') = [''a'' @ [LF], ''x'' @ [LF], ''y'' @ [LF], ''c'']"
    unfolding lines same l by (simp add: abc_file_def)
  have c: "raw' = ''a'' @ [LF] @ ''x'' @ [LF] @ ''y'' @ [LF] @ ''c''"
    unfolding bytes l by (simp add: abc_file_def)
  from a b c h1 h2 h3 h4 h5 h6 show ?thesis by simp
qed

text \<open>
  C5.  When the fix carries a replacement and its line number exceeds the number of lines
  of the target file, \<open>apply_fix\<close> raises \<open>IndexError\<close> and the files are what they were:
  nothing is written.
\<close>

theorem apply_fix_stale_target:
  assumes "fs (f_file fx) = Some raw"
    and "f_replacement fx = Some r"
    and "int (length (readlines (universal_newlines raw))) < f_line fx"
  shows "apply_fix pf fs fx = (fs, Inl IndexError)"
  using assms
  by (simp add: apply_fix_def read_file_def setitem_def py_index_beyond)

theorem apply_fix_stale_target_witness:
  "[''a.swift'' \<mapsto> abc_file] (f_file (abc_fix\<lparr>f_line := 4\<rparr>)) = Some abc_file \<and>
   f_replacement (abc_fix\<lparr>f_line := 4\<rparr>) = Some (''x'' @ [LF] @ ''y'') \<and>
   int (length (readlines (universal_newlines abc_file))) < f_line (abc_fix\<lparr>f_line := 4\<rparr>) \<and>
   apply_fix Posix [''a.swift'' \<mapsto> abc_file] (abc_fix\<lparr>f_line := 4\<rparr>) =
     ([''a.swift'' \<mapsto> abc_file], Inl IndexError) \<and>
   apply_fix Nt [''a.swift'' \<mapsto> abc_file] (abc_fix\<lparr>f_line := 4\<rparr>) =
     ([''a.swift'' \<mapsto> abc_file], Inl IndexError)"
proof -
  have h1: "[''a.swift'' \<mapsto> abc_file] (f_file (abc_fix\<lparr>f_line := 4\<rparr>)) = Some abc_file"
    by (simp add: abc_fix_def)
  have h2: "f_replacement (abc_fix\<lparr>f_line := 4\<rparr>) = Some (''x'' @ [LF] @ ''y'')"
    by (simp add: abc_fix_def)
  have h3: "int (length (readlines (universal_newlines abc_file))) < f_line (abc_fix\<lparr>f_line := 4\<rparr>)"
    by (simp add: abc_file_def)
  show ?thesis
    using h1 h2 h3
      apply_fix_stale_target [where fs = "[''a.swift'' \<mapsto> abc_file]"
        and fx = "abc_fix\<lparr>f_line := 4\<rparr>" and pf = Posix, OF h1 h2 h3]
      apply_fix_stale_target [where fs = "[''a.swift'' \<mapsto> abc_file]"
        and fx = "abc_fix\<lparr>f_line := 4\<rparr>" and pf = Nt, OF h1 h2 h3]
    by simp
qed

section \<open>Requesting a fix by index\<close>

text \<open>
  C6.  With \<open>L\<close> issues, a request for the fix of issue \<open>i\<close> with \<open>i \<ge> L\<close> returns the string
  \<open>Invalid issue index\<close>: no exception, no fix.
\<close>

theorem suggest_fixes_invalid_index:
  assumes "int (length issues) \<le> i"
  shows "suggest_fixes fs issues (Some i) = Inr (Single (Str ''Invalid issue index''))"
  using assms by (simp add: suggest_fixes_def)


theorem suggest_fixes_invalid_index_witness:
  "int (length [vstack_issue, rate_issue]) \<le> 2 \<and>
   suggest_fixes [''a.swift'' \<mapsto> vstack_file] [vstack_issue, rate_issue] (Some 2) =
     Inr (Single (Str ''Invalid issue index''))"
proof -
  have h: "int (length [vstack_issue, rate_issue]) \<le> 2" by simp
  show ?thesis
    using h suggest_fixes_invalid_index [OF h, of "[''a.swift'' \<mapsto> vstack_file]"] by simp
qed

section \<open>The scenario of the spacing idiom\<close>

text \<open>
  C1.  In the ten-line file \<open>vstack_file\<close>, line 5 is \<open>    VStack(spacing: 12) {\<close>.  The
  detector reports one issue, of type \<open>buildExpression\<close> at line 5.  The fix for it has the
  replacement \<open>VStack {\<close>, newline, \<open>        Spacer().frame(height: 12)\<close>: \<open>strip\<close> has
  removed the indentation that the synthesizer put before \<open>VStack {\<close>, and only the
  second line carries it.  \<open>apply_fix\<close> then writes, on either platform, a file of eleven
  lines whose line 5 is \<open>VStack {\<close> without indentation.
\<close>

theorem vstack_scenario:
  "length (readlines (universal_newlines vstack_file)) = 10 \<and>
   readlines (universal_newlines vstack_file) ! 4 = ''    VStack(spacing: 12) {'' @ [LF] \<and>
   analyze_file [''a.swift'' \<mapsto> vstack_file] ''a.swift'' = Inr [vstack_issue] \<and>
   i_type vstack_issue = ''buildExpression'' \<and> i_line vstack_issue = 5 \<and>
   generate_fix [''a.swift'' \<mapsto> vstack_file] vstack_issue = Inr (FixDict vstack_fix) \<and>
   f_replacement vstack_fix = Some (''VStack {'' @ [LF] @ ''        Spacer().frame(height: 12)'') \<and>
   f_replacement vstack_fix \<noteq> Some (''    VStack {'' @ [LF] @ ''        Spacer().frame(height: 12)'') \<and>
   snd (apply_fix Posix [''a.swift'' \<mapsto> vstack_file] vstack_fix) =
     Inr ''Applied fix to a.swift line 5'' \<and>
   map_sum id readlines
       (read_file (fst (apply_fix Posix [''a.swift'' \<mapsto> vstack_file] vstack_fix)) ''a.swift'') =
     Inr [''import SwiftUI'' @ [LF],
          [LF],
          ''struct ContentView: View {'' @ [LF],
          ''  var body: some View {'' @ [LF],
          ''VStack {'' @ [LF],
          ''        Spacer().frame(height: 12)'' @ [LF],
          ''      Text('' @ [DQ] @ ''Hello'' @ [DQ] @ '')'' @ [LF],
          ''    }'' @ [LF],
          ''  }'' @ [LF],
          ''}'' @ [LF],
          ''// end'' @ [LF]] \<and>
   snd (apply_fix Nt [''a.swift'' \<mapsto> vstack_file] vstack_fix) =
     Inr ''Applied fix to a.swift line 5'' \<and>
   map_sum id readlines
       (read_file (fst (apply_fix Nt [''a.swift'' \<mapsto> vstack_file] vstack_fix)) ''a.swift'') =
     Inr [''import SwiftUI'' @ [LF],
          [LF],
          ''struct ContentView: View {'' @ [LF],
          ''  var body: some View {'' @ [LF],
          ''VStack {'' @ [LF],
          ''        Spacer().frame(height: 12)'' @ [LF],
          ''      Text('' @ [DQ] @ ''Hello'' @ [DQ] @ '')'' @ [LF],
          ''    }'' @ [LF],
          ''  }'' @ [LF],
          ''}'' @ [LF],
          ''// end'' @ [LF]]"
  by code_simp

section \<open>Detection after a fix\<close>

lemma duration_not_reported_again:
  "map i_message (check_deprecated_apis duration_file ''a.swift'') =
     [''Potential deprecated API usage: .duration'' @ [LF]] \<and>
   fix_deprecated_api [''a.swift'' \<mapsto> duration_file] dep_issue =
     Inr \<lparr>f_file = ''a.swift'', f_line = 1, f_original = ''let d = asset.duration'',
           f_replacement = Some ''let d = try await asset.load(.duration)'',
           f_message = ''Replace deprecated API with modern equivalent''\<rparr> \<and>
   check_deprecated_apis (''let d = try await asset.load(.duration)'' @ [LF]) ''a.swift'' = []"
  by code_simp

text \<open>
  C2.  In the one-line file \<open>rate_file\<close> the detector reports one \<open>deprecated_api\<close> issue at
  line 1, for the pattern \<open>\.nominalFrameRate\<close>.  The fix rewrites the line to
  \<open>let r = try await track.load(.nominalFrameRate)\<close>; after \<open>apply_fix\<close> the detector
  reports the same issue again, at the same line and for the same pattern: the
  replacement, like the catalog's own suggestion \<open>videoTrack.load(.nominalFrameRate)\<close>,
  contains the text the pattern looks for.  (The pattern \<open>\.duration\s\<close> asks for
  whitespace after the name, and the rewritten \<open>load(.duration)\<close> is not reported again:
  lemma \<open>duration_not_reported_again\<close>.)
\<close>

theorem nominal_frame_rate_reported_again:
  "analyze_file [''a.swift'' \<mapsto> rate_file] ''a.swift'' = Inr [rate_issue] \<and>
   generate_fix [''a.swift'' \<mapsto> rate_file] rate_issue = Inr (FixDict rate_fix) \<and>
   snd (apply_fix Posix [''a.swift'' \<mapsto> rate_file] rate_fix) =
     Inr ''Applied fix to a.swift line 1'' \<and>
   fst (apply_fix Posix [''a.swift'' \<mapsto> rate_file] rate_fix) ''a.swift'' =
     Some (''let r = try await track.load(.nominalFrameRate)'' @ [LF]) \<and>
   analyze_file (fst (apply_fix Posix [''a.swift'' \<mapsto> rate_file] rate_fix)) ''a.swift'' =
     Inr [rate_issue] \<and>
   snd (apply_fix Nt [''a.swift'' \<mapsto> rate_file] rate_fix) =
     Inr ''Applied fix to a.swift line 1'' \<and>
   fst (apply_fix Nt [''a.swift'' \<mapsto> rate_file] rate_fix) ''a.swift'' =
     Some (''let r = try await track.load(.nominalFrameRate)'' @ [CR, LF]) \<and>
   analyze_file (fst (apply_fix Nt [''a.swift'' \<mapsto> rate_file] rate_fix)) ''a.swift'' =
     Inr [rate_issue]"
  by code_simp

section \<open>The catalog of deprecated APIs in detection\<close>

lemma foldl_snoc_map: "foldl (\<lambda>acc m. acc @ [f m]) acc ms = acc @ map f ms"
  by (induction ms arbitrary: acc) simp_all

lemma foldl_catalog:
  "foldl (\<lambda>issues (pattern, replacement). issues @ h pattern replacement) acc cat =
     acc @ concat (map (\<lambda>(pattern, replacement). h pattern replacement) cat)"
  by (induction cat arbitrary: acc) (simp_all add: case_prod_unfold)

lemma check_deprecated_apis_concat:
  "check_deprecated_apis content file_path =
     concat (map (\<lambda>(pattern, replacement).
         map (deprecated_issue content file_path replacement) (finditer pattern content))
       deprecated_apis)"
  unfolding check_deprecated_apis_def foldl_snoc_map
  using foldl_catalog [of "\<lambda>pattern replacement.
      map (deprecated_issue content file_path replacement) (finditer pattern content)" "[]"
      deprecated_apis]
  by simp

text \<open>
  C7, as the claim states it, fails: the line of \<open>two_file\<close> matches the first pattern of
  the catalog (\<open>AVAsset\(url:\<close>) and the fifth (\<open>\.naturalSize\<close>), and detection reports an
  issue for each of them at line 1.
\<close>

theorem first_match_wins_counterexample:
  "check_deprecated_apis two_file ''a.swift'' =
     [\<lparr>i_file = ''a.swift'', i_line = 1, i_type = ''deprecated_api'',
        i_message = ''Potential deprecated API usage: AVAsset(url:'',
        i_suggestion = ''Consider using AVURLAsset(url: instead''\<rparr>,
      \<lparr>i_file = ''a.swift'', i_line = 1, i_type = ''deprecated_api'',
        i_message = ''Potential deprecated API usage: .naturalSize'',
        i_suggestion = ''Consider using videoTrack.load(.naturalSize) instead''\<rparr>]"
  by code_simp

text \<open>
  C7, amended.  Detection applies every pattern of the catalog to the whole content:
  the issues are those of the first pattern's matches, then those of the second
  pattern's matches, and so on in catalog order, and every match of every pattern
  contributes its issue, whether or not an earlier pattern matches the same line.
\<close>

theorem check_deprecated_apis_every_pattern:
  "check_deprecated_apis content file_path =
     concat (map (\<lambda>(pattern, replacement).
         map (deprecated_issue content file_path replacement) (finditer pattern content))
       deprecated_apis) \<and>
   (\<forall>(pattern, replacement) \<in> set deprecated_apis. \<forall>m \<in> set (finditer pattern content).
      deprecated_issue content file_path replacement m \<in>
        set (check_deprecated_apis content file_path))"
  unfolding check_deprecated_apis_concat by auto

theorem check_deprecated_apis_every_pattern_witness:
  "(lits ''.naturalSize'', ''videoTrack.load(.naturalSize)'') \<in> set deprecated_apis \<and>
   \<lparr>m_start = 23, m_end = 35, m_spans = (\<lambda>_. None)\<rparr> \<in> set (finditer (lits ''.naturalSize'') two_file) \<and>
   \<lparr>i_file = ''a.swift'', i_line = 1, i_type = ''deprecated_api'',
     i_message = ''Potential deprecated API usage: .naturalSize'',
     i_suggestion = ''Consider using videoTrack.load(.naturalSize) instead''\<rparr> \<in>
     set (check_deprecated_apis two_file ''a.swift'')"
proof -
  let ?m = "\<lparr>m_start = 23, m_end = 35, m_spans = (\<lambda>_. None)\<rparr>"
  have h1: "(lits ''.naturalSize'', ''videoTrack.load(.naturalSize)'') \<in> set deprecated_apis"
    by (simp add: deprecated_apis_def)
  have h2: "?m \<in> set (finditer (lits ''.naturalSize'') two_file)"
    by (simp add: finditer_def two_file_def match_at_def)
  have iss: "deprecated_issue two_file ''a.swift'' ''videoTrack.load(.naturalSize)'' ?m =
      \<lparr>i_file = ''a.swift'', i_line = 1, i_type = ''deprecated_api'',
        i_message = ''Potential deprecated API usage: .naturalSize'',
        i_suggestion = ''Consider using videoTrack.load(.naturalSize) instead''\<rparr>"
    by (simp add: deprecated_issue_def line_of_def group0_def slice_def two_file_def)
  from check_deprecated_apis_every_pattern [of two_file "''a.swift''"] h1 h2
  have "deprecated_issue two_file ''a.swift'' ''videoTrack.load(.naturalSize)'' ?m \<in>
          set (check_deprecated_apis two_file ''a.swift'')"
    by blast
  with h1 h2 iss show ?thesis by simp
qed

section \<open>Synthesis on a stale line\<close>

lemma first_replacement_None:
  "first_replacement ps line = None \<longleftrightarrow>
     \<not> list_ex (\<lambda>(pattern, replacement). re_search pattern line \<noteq> None) ps"
  by (induction ps) (auto split: option.splits)

lemma getitem_in_range:
  "1 \<le> k \<Longrightarrow> k \<le> int (length xs) \<Longrightarrow> getitem xs (k - 1) = Inr (xs ! nat (k - 1))"
  by (simp add: getitem_def py_index_in_range)

text \<open>
  C3, as the claim states it, fails.  The file \<open>stale_file\<close> has one line, which no
  detection pattern matches.  For an issue that records line 2 the synthesizer raises
  \<open>IndexError\<close>; for an issue that records line 1 it returns a replacement, because the
  line matches the fix pattern \<open>(\w+)\.duration\<close>.
\<close>

theorem synthesize_stale_line_counterexample:
  "length (splitlines (universal_newlines stale_file)) = 1 \<and>
   generate_fix [''a.swift'' \<mapsto> stale_file] (stale_issue\<lparr>i_line := 2\<rparr>) = Inl IndexError \<and>
   analyze_file [''a.swift'' \<mapsto> stale_file] ''a.swift'' = Inr [] \<and>
   generate_fix [''a.swift'' \<mapsto> stale_file] stale_issue =
     Inr (FixDict \<lparr>f_file = ''a.swift'', f_line = 1, f_original = ''let d = asset.durations'',
            f_replacement = Some ''let d = try await asset.load(.duration)s'',
            f_message = ''Replace deprecated API with modern equivalent''\<rparr>)"
  by code_simp

text \<open>
  C3, amended.  Let the issue be of one of the three types, let its line number \<open>N\<close> lie
  within the lines that the synthesizer of its type reads from the content of the file
  (\<open>1 \<le> N \<le>\<close> their number), and let line \<open>N\<close> match none of the patterns by which that
  synthesizer rewrites.  Then synthesis returns a fix for line \<open>N\<close> whose \<open>original\<close> is
  the stripped line and which has no replacement; it raises nothing.
\<close>

theorem synthesize_stale_line:
  assumes ty: "i_type issue = ''buildExpression'' \<or> i_type issue = ''deprecated_api'' \<or>
               i_type issue = ''sendable_conformance''"
    and target: "fs (i_file issue) = Some raw"
    and content: "content = universal_newlines raw"
    and lo: "1 \<le> i_line issue"
    and hi: "i_line issue \<le> int (length (lines_read (i_type issue) content))"
    and stale: "\<not> fix_pattern_matches (i_type issue)
                   (lines_read (i_type issue) content ! nat (i_line issue - 1))"
  shows "\<exists>msg. generate_fix fs issue =
           Inr (FixDict \<lparr>f_file = i_file issue, f_line = i_line issue,
                  f_original = strip (lines_read (i_type issue) content ! nat (i_line issue - 1)),
                  f_replacement = None, f_message = msg\<rparr>)"
proof -
  consider (b) "i_type issue = ''buildExpression''" | (d) "i_type issue = ''deprecated_api''"
    | (s) "i_type issue = ''sendable_conformance''"
    using ty by blast
  then show ?thesis
  proof cases
    case b
    from hi b have hi': "i_line issue \<le> int (length (readlines content))"
      by (simp add: lines_read_def)
    from stale b show ?thesis
      by (auto simp: generate_fix_def fix_build_expression_def read_file_def target content [symmetric] Let_def
          getitem_in_range [OF lo hi'] lines_read_def fix_pattern_matches_def manual_fix_def
          split: option.splits)
  next
    case d
    from hi d have hi': "i_line issue \<le> int (length (splitlines content))"
      by (simp add: lines_read_def)
    from stale d
    have "first_replacement api_replacements (splitlines content ! nat (i_line issue - 1)) = None"
      by (simp add: first_replacement_None fix_pattern_matches_def lines_read_def)
    with d show ?thesis
      by (simp add: generate_fix_def fix_deprecated_api_def read_file_def target content [symmetric] Let_def
          getitem_in_range [OF lo hi'] lines_read_def manual_fix_def)
  next
    case s
    from hi s have hi': "i_line issue \<le> int (length (readlines content))"
      by (simp add: lines_read_def)
    from stale s
    have "re_search class_pattern (readlines content ! nat (i_line issue - 1)) = None"
      by (simp add: fix_pattern_matches_def lines_read_def)
    with s show ?thesis
      by (simp add: generate_fix_def fix_sendable_conformance_def read_file_def target content [symmetric] Let_def
          getitem_in_range [OF lo hi'] lines_read_def manual_fix_def)
  qed
qed

theorem synthesize_stale_line_witness:
  "i_type (stale_issue\<lparr>i_line := 2\<rparr>) = ''deprecated_api'' \<and>
   [''a.swift'' \<mapsto> plain_file] (i_file (stale_issue\<lparr>i_line := 2\<rparr>)) = Some plain_file \<and>
   plain_file = universal_newlines plain_file \<and>
   1 \<le> i_line (stale_issue\<lparr>i_line := 2\<rparr>) \<and>
   i_line (stale_issue\<lparr>i_line := 2\<rparr>) \<le> int (length (lines_read ''deprecated_api'' plain_file)) \<and>
   \<not> fix_pattern_matches ''deprecated_api'' (lines_read ''deprecated_api'' plain_file ! 1) \<and>
   (\<exists>msg. generate_fix [''a.swift'' \<mapsto> plain_file] (stale_issue\<lparr>i_line := 2\<rparr>) =
      Inr (FixDict \<lparr>f_file = ''a.swift'', f_line = 2, f_original = ''let y = 2'',
             f_replacement = None, f_message = msg\<rparr>))"
proof -
  let ?i = "stale_issue\<lparr>i_line := 2\<rparr>"
  have t: "i_type ?i = ''deprecated_api''" by (simp add: stale_issue_def)
  have f: "i_file ?i = ''a.swift''" by (simp add: stale_issue_def)
  have l: "i_line ?i = 2" by simp
  have h1: "i_type ?i = ''buildExpression'' \<or> i_type ?i = ''deprecated_api'' \<or>
            i_type ?i = ''sendable_conformance''"
    by (simp add: t)
  have h2: "[''a.swift'' \<mapsto> plain_file] (i_file ?i) = Some plain_file" by (simp add: f)
  have hc: "plain_file = universal_newlines plain_file" by code_simp
  have h3: "1 \<le> i_line ?i" by simp
  have h4: "i_line ?i \<le> int (length (lines_read (i_type ?i) plain_file))"
    unfolding t l by code_simp
  have nth: "lines_read ''deprecated_api'' plain_file ! 1 = ''let y = 2''"
    by code_simp
  have h5': "\<not> fix_pattern_matches ''deprecated_api'' ''let y = 2''"
    by code_simp
  have h5: "\<not> fix_pattern_matches (i_type ?i) (lines_read (i_type ?i) plain_file ! nat (i_line ?i - 1))"
    unfolding t l using h5' nth by simp
  from synthesize_stale_line [where fs = "[''a.swift'' \<mapsto> plain_file]" and issue = ?i,
      OF h1 h2 hc h3 h4 h5]
  have "\<exists>msg. generate_fix [''a.swift'' \<mapsto> plain_file] ?i =
      Inr (FixDict \<lparr>f_file = ''a.swift'', f_line = 2, f_original = strip ''let y = 2'',
             f_replacement = None, f_message = msg\<rparr>)"
    unfolding t l f using nth by simp
  moreover have "strip ''let y = 2'' = ''let y = 2''" by code_simp
  ultimately show ?thesis
    using t h2 hc h3 h4 h5' nth unfolding t l by simp
qed


section \<open>Stripped fix records\<close>

lemma last_dropWhile: "dropWhile P xs \<noteq> [] \<Longrightarrow> last (dropWhile P xs) = last xs"
  by (induction xs) (auto split: if_splits)

lemma strip_ends:
  "strip s = [] \<or> (\<not> is_space (hd (strip s)) \<and> \<not> is_space (last (strip s)))"
proof (cases "strip s = []")
  case True
  then show ?thesis by simp
next
  case False
  define u where "u = dropWhile is_space s"
  define v where "v = dropWhile is_space (rev u)"
  have st: "strip s = rev v" by (simp add: strip_def u_def v_def)
  from False st have v: "v \<noteq> []" by simp
  then have hv: "\<not> is_space (hd v)" unfolding v_def by (rule hd_dropWhile)
  have u: "u \<noteq> []" using v unfolding v_def by auto
  then have hu: "\<not> is_space (hd u)" unfolding u_def by (rule hd_dropWhile)
  have "last v = last (rev u)" using v unfolding v_def by (rule last_dropWhile)
  also have "\<dots> = hd u" using u by (simp add: last_rev)
  finally have lv: "last v = hd u" .
  have "hd (strip s) = last v" using v by (simp add: st hd_rev)
  moreover have "last (strip s) = hd v" using v by (simp add: st last_rev)
  ultimately show ?thesis using hv hu lv by simp
qed

lemma strip_fixed:
  assumes "t = [] \<or> (\<not> is_space (hd t) \<and> \<not> is_space (last t))"
  shows "strip t = t"
proof (cases "t = []")
  case True
  then show ?thesis by (simp add: strip_def)
next
  case False
  with assms have h: "\<not> is_space (hd t)" and l: "\<not> is_space (last t)" by auto
  from False h have a: "dropWhile is_space t = t" by (cases t) auto
  from False l have "\<not> is_space (hd (rev t))" by (simp add: hd_rev)
  with False have b: "dropWhile is_space (rev t) = rev t" by (cases "rev t") auto
  show ?thesis by (simp add: strip_def a b)
qed

lemma strip_fixed_iff:
  "strip t = t \<longleftrightarrow> t = [] \<or> (\<not> is_space (hd t) \<and> \<not> is_space (last t))"
  using strip_ends [of t] strip_fixed [of t] by auto

lemma strip_idem: "strip (strip s) = strip s"
  using strip_ends [of s] by (rule strip_fixed)

lemma is_space_LF: "is_space LF"
  by (simp add: is_space_def)

lemma lstrip_first_line: "lstrip (takeWhile (\<lambda>c. c \<noteq> LF) (strip x)) = takeWhile (\<lambda>c. c \<noteq> LF) (strip x)"
proof (cases "strip x")
  case Nil
  then show ?thesis by (simp add: lstrip_def)
next
  case (Cons c cs)
  with strip_ends [of x] have "\<not> is_space c" by simp
  moreover from this have "c \<noteq> LF" using is_space_LF by auto
  ultimately show ?thesis using Cons by (simp add: lstrip_def)
qed

lemma py_index_less: "py_index xs i = Some j \<Longrightarrow> j < length xs"
  by (auto simp: py_index_def split: if_splits)

subsection \<open>No carriage return in what the synthesizers build\<close>

lemma no_CR_slice: "CR \<notin> set s \<Longrightarrow> CR \<notin> set (slice s a b)"
  unfolding slice_def by (meson in_set_dropD in_set_takeD)

lemma no_CR_group: "CR \<notin> set s \<Longrightarrow> CR \<notin> set (group s m n)"
  unfolding group_def by (auto split: option.splits dest: no_CR_slice)

lemma no_CR_group0: "CR \<notin> set s \<Longrightarrow> CR \<notin> set (group0 s m)"
  unfolding group0_def by (rule no_CR_slice)

lemma no_CR_indent_of: "CR \<notin> set s \<Longrightarrow> CR \<notin> set (indent_of s)"
  unfolding indent_of_def by (auto split: option.splits dest: no_CR_group0)

lemma no_CR_expand:
  "CR \<notin> set s \<Longrightarrow> \<forall>l. TLit l \<in> set t \<longrightarrow> CR \<notin> set l \<Longrightarrow> CR \<notin> set (expand s m t)"
proof (induction t)
  case Nil
  show ?case by simp
next
  case (Cons x t)
  then show ?case
    by (cases x) (auto dest: no_CR_group)
qed

lemma no_CR_sub_build:
  "CR \<notin> set s \<Longrightarrow> \<forall>l. TLit l \<in> set t \<longrightarrow> CR \<notin> set l \<Longrightarrow>
     CR \<notin> set (sub_build s t pos ms)"
proof (induction ms arbitrary: pos)
  case Nil
  then show ?case by (auto dest: in_set_dropD)
next
  case (Cons m ms)
  from Cons.prems have "CR \<notin> set (slice s pos (m_start m))" "CR \<notin> set (expand s m t)"
    by (simp_all add: no_CR_slice no_CR_expand)
  with Cons show ?case by simp
qed

lemma no_CR_re_sub:
  "CR \<notin> set s \<Longrightarrow> \<forall>l. TLit l \<in> set t \<longrightarrow> CR \<notin> set l \<Longrightarrow> CR \<notin> set (re_sub r t s)"
  unfolding re_sub_def by (rule no_CR_sub_build)

lemma no_CR_replace:
  "CR \<notin> set s \<Longrightarrow> CR \<notin> set new \<Longrightarrow> CR \<notin> set (replace old new s)"
proof (induction old new s rule: replace.induct)
  case (1 old new)
  then show ?case by simp
next
  case (2 old new c cs)
  have "CR \<notin> set (drop (length old) (c # cs))"
    using "2.prems"(1) by (meson in_set_dropD)
  with 2 show ?case by auto
qed

lemma set_strip: "set (strip s) \<subseteq> set s"
  unfolding strip_def by (auto dest!: set_dropWhileD)

lemma no_CR_strip: "CR \<notin> set s \<Longrightarrow> CR \<notin> set (strip s)"
  using set_strip by blast

lemma no_CR_readlines: "CR \<notin> set s \<Longrightarrow> l \<in> set (readlines s) \<Longrightarrow> CR \<notin> set l"
proof -
  assume s: "CR \<notin> set s" and l: "l \<in> set (readlines s)"
  from l have "set l \<subseteq> set (concat (readlines s))" by auto
  then have "set l \<subseteq> set s" by (simp only: concat_readlines)
  with s show ?thesis by blast
qed

lemma set_splitlines: "l \<in> set (splitlines s) \<Longrightarrow> set l \<subseteq> set s"
proof (induction s arbitrary: l rule: splitlines.induct)
  case 1
  then show ?case by simp
next
  case (2 c cs)
  show ?case
  proof (cases "c = CR \<and> cs \<noteq> [] \<and> hd cs = LF")
    case True
    with "2.prems" have "l = [] \<or> l \<in> set (splitlines (tl cs))" by simp
    with "2.IH"(1) [OF True] True show ?thesis
      by (cases cs) auto
  next
    case False
    show ?thesis
    proof (cases "is_linebreak c")
      case True
      with False "2.prems" have "l = [] \<or> l \<in> set (splitlines cs)" by auto
      with "2.IH"(2) [OF False True] show ?thesis by auto
    next
      case nb: False
      show ?thesis
      proof (cases "splitlines cs")
        case Nil
        with False nb "2.prems" show ?thesis by auto
      next
        case (Cons k ks)
        with False nb "2.prems" have l: "l = c # k \<or> l \<in> set ks" by auto
        have k: "set k \<subseteq> set cs"
          using "2.IH"(3) [OF False nb, of k] Cons by simp
        have ks: "set l \<subseteq> set cs" if "l \<in> set ks"
          using "2.IH"(3) [OF False nb, of l] Cons that by simp
        from l k ks show ?thesis by auto
      qed
    qed
  qed
qed

lemma no_CR_splitlines: "CR \<notin> set s \<Longrightarrow> l \<in> set (splitlines s) \<Longrightarrow> CR \<notin> set l"
  using set_splitlines by blast

lemma getitem_mem: "getitem xs i = Inr x \<Longrightarrow> x \<in> set xs"
  by (auto simp: getitem_def py_index_def split: option.splits if_splits)

lemma first_replacement_mem:
  "first_replacement ps line = Some x \<Longrightarrow> \<exists>(p, t) \<in> set ps. x = re_sub p t line"
  by (induction ps) (auto split: option.splits)

lemma api_replacements_no_CR:
  "(p, t) \<in> set api_replacements \<Longrightarrow> TLit l \<in> set t \<Longrightarrow> CR \<notin> set l"
  unfolding api_replacements_def by auto


lemma read_file_no_CR: "read_file fs p = Inr content \<Longrightarrow> CR \<notin> set content"
  by (auto simp: read_file_def universal_newlines_no_CR split: option.splits)

lemma build_shape:
  assumes "fix_build_expression fs issue = Inr fx"
  shows "(\<exists>l. f_original fx = strip l) \<and>
         (f_replacement fx = None \<or> (\<exists>x. f_replacement fx = Some (strip x) \<and> CR \<notin> set x))"
proof -
  from assms obtain content line where c: "read_file fs (i_file issue) = Inr content"
    and g: "getitem (readlines content) (i_line issue - 1) = Inr line"
    by (auto simp: fix_build_expression_def Let_def split: sum.splits)
  from read_file_no_CR [OF c] getitem_mem [OF g] have line: "CR \<notin> set line"
    by (rule no_CR_readlines)
  have sp: "CR \<notin> set (case re_search spacing_pattern line of
                          Some spacing_match \<Rightarrow> group line spacing_match 1 | None \<Rightarrow> ''20'')"
    using line by (auto split: option.splits dest: no_CR_group)
  have ind: "CR \<notin> set (indent_of line)" using line by (rule no_CR_indent_of)
  have rp: "CR \<notin> set (replace old ([BSL, CHR ''(''] @ ''computed_value'' @ '')'') line)" for old
    using line by (rule no_CR_replace) simp
  have gr: "CR \<notin> set (group line m 1)" for m
    using line by (rule no_CR_group)
  from assms c g show ?thesis
    using sp ind rp gr
    by (auto simp: fix_build_expression_def Let_def manual_fix_def split: if_splits option.splits)
qed

lemma deprecated_shape:
  assumes "fix_deprecated_api fs issue = Inr fx"
  shows "(\<exists>l. f_original fx = strip l) \<and>
         (f_replacement fx = None \<or> (\<exists>x. f_replacement fx = Some (strip x) \<and> CR \<notin> set x))"
proof -
  from assms obtain content line where c: "read_file fs (i_file issue) = Inr content"
    and g: "getitem (splitlines content) (i_line issue - 1) = Inr line"
    by (auto simp: fix_deprecated_api_def Let_def split: sum.splits)
  from read_file_no_CR [OF c] getitem_mem [OF g] have line: "CR \<notin> set line"
    by (rule no_CR_splitlines)
  have "CR \<notin> set x" if "first_replacement api_replacements line = Some x" for x
  proof -
    from first_replacement_mem [OF that] obtain p t where
      "(p, t) \<in> set api_replacements" and x: "x = re_sub p t line" by blast
    then have "\<forall>l. TLit l \<in> set t \<longrightarrow> CR \<notin> set l"
      using api_replacements_no_CR by blast
    with line show ?thesis unfolding x by (rule no_CR_re_sub)
  qed
  with assms c g show ?thesis
    by (auto simp: fix_deprecated_api_def Let_def manual_fix_def split: option.splits)
qed

lemma sendable_shape:
  assumes "fix_sendable_conformance fs issue = Inr fx"
  shows "(\<exists>l. f_original fx = strip l) \<and>
         (f_replacement fx = None \<or> (\<exists>x. f_replacement fx = Some (strip x) \<and> CR \<notin> set x))"
proof -
  from assms obtain content line where c: "read_file fs (i_file issue) = Inr content"
    and g: "getitem (readlines content) (i_line issue - 1) = Inr line"
    by (auto simp: fix_sendable_conformance_def Let_def split: sum.splits)
  from read_file_no_CR [OF c] getitem_mem [OF g] have line: "CR \<notin> set line"
    by (rule no_CR_readlines)
  have a: "CR \<notin> set (replace '':'' '': @unchecked Sendable,'' line)"
    using line by (rule no_CR_replace) simp
  have b: "CR \<notin> set (replace (group line m 1) (group line m 1 @ '': @unchecked Sendable'') line)" for m
    using line by (rule no_CR_replace) (use no_CR_group [OF line] in simp)
  from assms c g show ?thesis
    using a b
    by (auto simp: fix_sendable_conformance_def Let_def manual_fix_def split: if_splits option.splits)
qed

lemma apply_fix_written_line:
  assumes "f_replacement fx = Some r" and "CR \<notin> set r"
    and "apply_fix pf fs fx = (fs', Inr status)"
  shows "\<exists>raw text' j. fs (f_file fx) = Some raw \<and>
           py_index (readlines (universal_newlines raw)) (f_line fx - 1) = Some j \<and>
           fs' = fs(f_file fx \<mapsto> write_newlines (os_linesep pf)
                   (concat ((readlines (universal_newlines raw))[j := r @ [LF]]))) \<and>
           read_file fs' (f_file fx) = Inr text' \<and>
           j < length (readlines text') \<and>
           readlines text' ! j = takeWhile (\<lambda>c. c \<noteq> LF) r @ [LF]"
proof -
  from assms(1,3) obtain raw j where c: "fs (f_file fx) = Some raw"
    and j: "py_index (readlines (universal_newlines raw)) (f_line fx - 1) = Some j"
    and fs': "fs' = fs(f_file fx \<mapsto> write_newlines (os_linesep pf)
                (concat ((readlines (universal_newlines raw))[j := r @ [LF]])))"
    by (auto simp: apply_fix_def read_file_def write_lines_def setitem_def Let_def
        split: option.splits)
  let ?t = "universal_newlines raw"
  let ?L = "readlines ?t"
  let ?text' = "universal_newlines (write_newlines (os_linesep pf) (concat (?L[j := r @ [LF]])))"
  from j have lt: "j < length ?L" by (rule py_index_less)
  have t: "CR \<notin> set ?t" by (rule universal_newlines_no_CR)
  from assms(2) have "CR \<notin> set (r @ [LF])" by simp
  then have same: "universal_newlines (write_newlines (os_linesep pf) (r @ [LF])) = r @ [LF]"
    by (rule read_written_whole)
  obtain rest where hd: "readlines (r @ [LF]) = (takeWhile (\<lambda>c. c \<noteq> LF) r @ [LF]) # rest"
    using hd_readlines_nl by blast
  have lines: "readlines ?text' =
      take j ?L @ ((takeWhile (\<lambda>c. c \<noteq> LF) r @ [LF]) # rest) @ drop (Suc j) ?L"
    using readlines_read_back [OF t lt, of pf r] by (simp only: same hd)
  have "length (take j ?L) = j" using lt by simp
  then have nth: "readlines ?text' ! j = takeWhile (\<lambda>c. c \<noteq> LF) r @ [LF]"
    by (simp add: lines nth_append)
  have len: "j < length (readlines ?text')" using lt by (simp add: lines)
  have rd: "read_file fs' (f_file fx) = Inr ?text'"
    by (simp add: read_file_def fs')
  from c j fs' rd nth len show ?thesis by blast
qed

text \<open>
  C10.  In every fix that one of the three synthesizers returns, \<open>original\<close> is stripped
  (stripping it again changes nothing) and so is the replacement when there is one.
  Consequently, when \<open>apply_fix\<close> then succeeds, on either platform, the line at the target
  index of the file read back is the first line of the replacement followed by a newline,
  and that first line has no leading whitespace, whatever the indentation of the line it
  replaces.
\<close>

theorem fix_records_are_stripped:
  assumes "fix_build_expression fs issue = Inr fx \<or> fix_deprecated_api fs issue = Inr fx \<or>
           fix_sendable_conformance fs issue = Inr fx"
  shows "strip (f_original fx) = f_original fx \<and>
         (\<forall>r. f_replacement fx = Some r \<longrightarrow>
            strip r = r \<and>
            (\<forall>pf fs' status. apply_fix pf fs fx = (fs', Inr status) \<longrightarrow>
               (\<exists>raw text' j.
                  fs (f_file fx) = Some raw \<and>
                  py_index (readlines (universal_newlines raw)) (f_line fx - 1) = Some j \<and>
                  fs' = fs(f_file fx \<mapsto> write_newlines (os_linesep pf)
                          (concat ((readlines (universal_newlines raw))[j := r @ [LF]]))) \<and>
                  read_file fs' (f_file fx) = Inr text' \<and>
                  j < length (readlines text') \<and>
                  readlines text' ! j = takeWhile (\<lambda>c. c \<noteq> LF) r @ [LF] \<and>
                  lstrip (takeWhile (\<lambda>c. c \<noteq> LF) r) = takeWhile (\<lambda>c. c \<noteq> LF) r)))"
proof -
  from assms have shape: "(\<exists>l. f_original fx = strip l) \<and>
      (f_replacement fx = None \<or> (\<exists>x. f_replacement fx = Some (strip x) \<and> CR \<notin> set x))"
    using build_shape deprecated_shape sendable_shape by blast
  then have orig: "strip (f_original fx) = f_original fx"
    by (auto simp: strip_idem)
  have repl: "strip r = r \<and> CR \<notin> set r \<and>
      lstrip (takeWhile (\<lambda>c. c \<noteq> LF) r) = takeWhile (\<lambda>c. c \<noteq> LF) r"
    if "f_replacement fx = Some r" for r
    using shape that by (auto simp: strip_idem lstrip_first_line no_CR_strip)
  have written: "\<exists>raw text' j.
      fs (f_file fx) = Some raw \<and>
      py_index (readlines (universal_newlines raw)) (f_line fx - 1) = Some j \<and>
      fs' = fs(f_file fx \<mapsto> write_newlines (os_linesep pf)
              (concat ((readlines (universal_newlines raw))[j := r @ [LF]]))) \<and>
      read_file fs' (f_file fx) = Inr text' \<and>
      j < length (readlines text') \<and>
      readlines text' ! j = takeWhile (\<lambda>c. c \<noteq> LF) r @ [LF] \<and>
      lstrip (takeWhile (\<lambda>c. c \<noteq> LF) r) = takeWhile (\<lambda>c. c \<noteq> LF) r"
    if r: "f_replacement fx = Some r" and run: "apply_fix pf fs fx = (fs', Inr status)"
    for r pf fs' status
    using apply_fix_written_line [OF r _ run] repl [OF r] by blast
  show ?thesis
    using orig repl written by blast
qed

theorem fix_records_are_stripped_witness:
  "fix_build_expression [''a.swift'' \<mapsto> vstack_file] vstack_issue = Inr vstack_fix \<and>
   f_replacement vstack_fix = Some (''VStack {'' @ [LF] @ ''        Spacer().frame(height: 12)'') \<and>
   strip (f_original vstack_fix) = f_original vstack_fix \<and>
   strip (''VStack {'' @ [LF] @ ''        Spacer().frame(height: 12)'') =
     ''VStack {'' @ [LF] @ ''        Spacer().frame(height: 12)'' \<and>
   (\<exists>text'. read_file (fst (apply_fix Posix [''a.swift'' \<mapsto> vstack_file] vstack_fix)) ''a.swift'' =
        Inr text' \<and>
      readlines text' ! 4 = ''VStack {'' @ [LF])"
proof -
  let ?fs = "[''a.swift'' \<mapsto> vstack_file]"
  let ?r = "''VStack {'' @ [LF] @ ''        Spacer().frame(height: 12)''"
  have h: "fix_build_expression ?fs vstack_issue = Inr vstack_fix"
    by code_simp
  have r: "f_replacement vstack_fix = Some ?r"
    by (simp add: vstack_fix_def)
  have f: "f_file vstack_fix = ''a.swift''"
    by (simp add: vstack_fix_def)
  have ok: "snd (apply_fix Posix ?fs vstack_fix) = Inr ''Applied fix to a.swift line 5''"
    by code_simp
  then have run: "apply_fix Posix ?fs vstack_fix =
      (fst (apply_fix Posix ?fs vstack_fix), Inr ''Applied fix to a.swift line 5'')"
    by (metis prod.collapse)
  have idx: "py_index (readlines (universal_newlines vstack_file)) (f_line vstack_fix - 1) = Some 4"
    by code_simp
  have first: "takeWhile (\<lambda>c. c \<noteq> LF) ?r = ''VStack {''"
    by simp
  from fix_records_are_stripped [where fs = ?fs and issue = vstack_issue and fx = vstack_fix]
    h r run
  have a: "strip (f_original vstack_fix) = f_original vstack_fix" and b: "strip ?r = ?r"
    and "\<exists>raw text' j.
           ?fs (f_file vstack_fix) = Some raw \<and>
           py_index (readlines (universal_newlines raw)) (f_line vstack_fix - 1) = Some j \<and>
           read_file (fst (apply_fix Posix ?fs vstack_fix)) (f_file vstack_fix) = Inr text' \<and>
           readlines text' ! j = takeWhile (\<lambda>c. c \<noteq> LF) ?r @ [LF]"
    by blast+
  then obtain text' j where
    c': "read_file (fst (apply_fix Posix ?fs vstack_fix)) ''a.swift'' = Inr text'"
    and j: "py_index (readlines (universal_newlines vstack_file)) (f_line vstack_fix - 1) = Some j"
    and nth: "readlines text' ! j = takeWhile (\<lambda>c. c \<noteq> LF) ?r @ [LF]"
    unfolding f by auto
  from j idx have "j = 4" by simp
  with nth first have "readlines text' ! 4 = ''VStack {'' @ [LF]" by simp
  with h r a b c' show ?thesis by blast
qed

section \<open>The fix for Sendable conformance\<close>

text \<open>
  C9.  The synthesizer tests for a conformance list by \<open>':' in line\<close> and then rewrites
  every colon of the line.  For the line \<open>class Foo: Bar {\<close> of \<open>sendable_file\<close> the
  replacement is \<open>class Foo: @unchecked Sendable, Bar {\<close>, as the claim says.  For the line
  \<open>class Foo { var x: Int = 0 }\<close> of \<open>property_file\<close>, which has no conformance list, the
  annotation is put after the colon of the property and nothing is appended to the class
  name; likewise for the colon of the generic parameter in
  \<open>class Box<T: Equatable> {\<close> of \<open>generic_file\<close>.  For the line
  \<open>class Node { var next = [Node]() }\<close> of \<open>twice_file\<close>, which has no colon, the
  annotation is appended to every occurrence of the name, also inside the initial value.
  In each file detection reports the class at line 1.
\<close>

theorem sendable_annotation_misplaced:
  "analyze_file [''a.swift'' \<mapsto> sendable_file] ''a.swift'' = Inr [class_issue ''Foo''] \<and>
   fix_sendable_conformance [''a.swift'' \<mapsto> sendable_file] (class_issue ''Foo'') =
     Inr \<lparr>f_file = ''a.swift'', f_line = 1, f_original = ''class Foo: Bar {'',
           f_replacement = Some ''class Foo: @unchecked Sendable, Bar {'',
           f_message = ''Add @unchecked Sendable conformance to Foo''\<rparr> \<and>
   analyze_file [''a.swift'' \<mapsto> property_file] ''a.swift'' = Inr [class_issue ''Foo''] \<and>
   fix_sendable_conformance [''a.swift'' \<mapsto> property_file] (class_issue ''Foo'') =
     Inr \<lparr>f_file = ''a.swift'', f_line = 1, f_original = ''class Foo { var x: Int = 0 }'',
           f_replacement = Some ''class Foo { var x: @unchecked Sendable, Int = 0 }'',
           f_message = ''Add @unchecked Sendable conformance to Foo''\<rparr> \<and>
   \<not> sublist ''Foo: @unchecked Sendable'' ''class Foo { var x: @unchecked Sendable, Int = 0 }'' \<and>
   analyze_file [''a.swift'' \<mapsto> generic_file] ''a.swift'' = Inr [class_issue ''Box''] \<and>
   fix_sendable_conformance [''a.swift'' \<mapsto> generic_file] (class_issue ''Box'') =
     Inr \<lparr>f_file = ''a.swift'', f_line = 1, f_original = ''class Box<T: Equatable> {'',
           f_replacement = Some ''class Box<T: @unchecked Sendable, Equatable> {'',
           f_message = ''Add @unchecked Sendable conformance to Box''\<rparr> \<and>
   \<not> sublist ''Box: @unchecked Sendable'' ''class Box<T: @unchecked Sendable, Equatable> {'' \<and>
   analyze_file [''a.swift'' \<mapsto> twice_file] ''a.swift'' = Inr [class_issue ''Node''] \<and>
   fix_sendable_conformance [''a.swift'' \<mapsto> twice_file] (class_issue ''Node'') =
     Inr \<lparr>f_file = ''a.swift'', f_line = 1, f_original = ''class Node { var next = [Node]() }'',
           f_replacement = Some
             ''class Node: @unchecked Sendable { var next = [Node: @unchecked Sendable]() }'',
           f_message = ''Add @unchecked Sendable conformance to Node''\<rparr>"
  by code_simp

section \<open>The fix for a deprecated API\<close>

lemma sublist_chain: "sublist a b \<Longrightarrow> sublist b c \<Longrightarrow> sublist a c"
proof -
  assume "sublist a b" and "sublist b c"
  then obtain p q p' q' where "b = p @ a @ q" and "c = p' @ b @ q'"
    unfolding sublist_def by blast
  then have "c = (p' @ p) @ a @ (q @ q')" by simp
  then show ?thesis unfolding sublist_def by blast
qed

lemma first_replacement_split:
  assumes "\<forall>(p, t) \<in> set before. re_search p line = None"
    and "re_search pattern line = Some m"
  shows "first_replacement (before @ (pattern, template) # after) line =
           Some (re_sub pattern template line)"
  using assms by (induction before) auto

lemma sublist_append_left: "sublist a b \<Longrightarrow> sublist a (c @ b)"
  unfolding sublist_def by (metis append.assoc)

lemma expand_group: "TGroup n \<in> set t \<Longrightarrow> sublist (group s m n) (expand s m t)"
proof (induction t)
  case Nil
  then show ?case by simp
next
  case (Cons x t)
  then show ?case
    by (cases x) (auto intro: sublist_append_left)
qed

lemma expand_lit: "TLit l \<in> set t \<Longrightarrow> sublist l (expand s m t)"
proof (induction t)
  case Nil
  then show ?case by simp
next
  case (Cons x t)
  then show ?case
    by (cases x) (auto intro: sublist_append_left)
qed

text \<open>A pattern that begins with \<open>(\w+)\<close>: group 1 is one or more word characters.\<close>

lemma word_group:
  assumes "re_search ([GOpen 1, Plus Word, GClose 1] @ rest) line = Some m"
    and "GClose 1 \<notin> set rest"
  shows "group line m 1 \<noteq> [] \<and> (\<forall>c \<in> set (group line m 1). is_word c)"
proof -
  from re_search_match_at [OF assms(1)] obtain j where
    "match_at ([GOpen 1, Plus Word, GClose 1] @ rest) (drop j line) j = Some m" by blast
  then obtain e g where
    run: "re_m ([GOpen 1, Plus Word, GClose 1] @ rest) (drop j line) j (\<lambda>_. 0) (\<lambda>_. None) = Some (e, g)"
    and m: "m = \<lparr>m_start = j, m_end = e, m_spans = g\<rparr>"
    by (auto simp: match_at_def split: option.splits)
  from run have "re_m (Plus Word # GClose 1 # rest) (drop j line) j ((\<lambda>_. 0)(1 := j)) (\<lambda>_. None) =
      Some (e, g)"
    by simp
  from re_m_Plus [OF this] obtain k where k: "0 < k" "k \<le> length (drop j line)"
    and w: "\<forall>x \<in> set (take k (drop j line)). cmatch Word x"
    and "re_m (GClose 1 # rest) (drop k (drop j line)) (j + k) ((\<lambda>_. 0)(1 := j)) (\<lambda>_. None) =
      Some (e, g)"
    by blast
  then have "re_m rest (drop k (drop j line)) (j + k) ((\<lambda>_. 0)(1 := j))
      ((\<lambda>_. None)(1 \<mapsto> (j, j + k))) = Some (e, g)"
    by simp
  from re_m_frame [OF this assms(2)] have "g 1 = Some (j, j + k)"
    by simp
  with m have grp: "group line m 1 = take k (drop j line)"
    by (simp add: group_def slice_def)
  from k have "take k (drop j line) \<noteq> []"
    by auto
  with w grp show ?thesis by simp
qed


text \<open>The expansion of a template of the table begins and ends with a character that is no whitespace.\<close>

lemma template_ends:
  assumes "(pattern, template) \<in> set api_replacements"
    and "re_search pattern line = Some m"
  shows "expand line m template \<noteq> [] \<and> \<not> is_space (hd (expand line m template)) \<and>
         \<not> is_space (last (expand line m template))"
proof -
  have sp: "\<not> is_space CHR ''A''" "\<not> is_space CHR ''t''" "\<not> is_space CHR '')''" "\<not> is_space CHR ''n''"
    by (simp_all add: is_space_def)
  consider
      (avasset) "template = [TLit ''AVURLAsset(url: '', TGroup 1, TLit '')'']"
    | (await) "\<exists>l. template = [TLit ''try await '', TGroup 1, TLit l] \<and> l \<noteq> [] \<and> last l = CHR '')''"
    | (tracks) "template = [TLit ''try await '', TGroup 1, TLit ''.loadTracks(withMediaType: '',
           TGroup 2, TLit '')'']"
    | (cg) "\<exists>rest. pattern = [GOpen 1, Plus Word, GClose 1] @ rest \<and> GClose 1 \<notin> set rest" and
        "template = [TGroup 1, TLit ''.generateCGImageAsynchronously(for: '', TGroup 2,
           TLit '') { cgImage, actualTime, error in'']"
    using assms(1) unfolding api_replacements_def by auto
  then show ?thesis
  proof cases
    case avasset
    then show ?thesis using sp by simp
  next
    case await
    then show ?thesis using sp by auto
  next
    case tracks
    then show ?thesis using sp by simp
  next
    case cg
    from cg(1) obtain rest where p: "pattern = [GOpen 1, Plus Word, GClose 1] @ rest"
      and r: "GClose 1 \<notin> set rest" by blast
    from word_group [OF assms(2) [unfolded p] r]
    have "group line m 1 \<noteq> []" "is_word (hd (group line m 1))"
      by simp_all
    with cg(2) show ?thesis
      using sp by (simp add: is_word_not_space)
  qed
qed

text \<open>
  C8, as the claim states it, fails.  The line of \<open>cg_file\<close> matches the last pattern of
  the table with \<open>&actual\<close> as its third group, and the replacement does not contain
  \<open>&actual\<close>: the template has no \<open>\3\<close>.  The line of \<open>both_file\<close> matches the second
  pattern with group \<open>asset\<close>, and the replacement has no \<open>load(.duration)\<close>: the first
  pattern matches the line too, and only the first pattern found is applied.
\<close>

theorem deprecated_fix_counterexample:
  "splitlines (universal_newlines cg_file) = [''let g = gen.copyCGImage(at: t, actualTime: &actual)''] \<and>
   group ''let g = gen.copyCGImage(at: t, actualTime: &actual)''
     (the (re_search (fst (api_replacements ! 5))
        ''let g = gen.copyCGImage(at: t, actualTime: &actual)'')) 3 = ''&actual'' \<and>
   generate_fix [''a.swift'' \<mapsto> cg_file] dep_issue =
     Inr (FixDict \<lparr>f_file = ''a.swift'', f_line = 1,
            f_original = ''let g = gen.copyCGImage(at: t, actualTime: &actual)'',
            f_replacement = Some
              ''let g = gen.generateCGImageAsynchronously(for: t) { cgImage, actualTime, error in'',
            f_message = ''Replace deprecated API with modern equivalent''\<rparr>) \<and>
   \<not> sublist ''&actual''
       ''let g = gen.generateCGImageAsynchronously(for: t) { cgImage, actualTime, error in'' \<and>
   splitlines (universal_newlines both_file) = [''let d = AVAsset(url: u); asset.duration''] \<and>
   group ''let d = AVAsset(url: u); asset.duration''
     (the (re_search (fst (api_replacements ! 1))
        ''let d = AVAsset(url: u); asset.duration'')) 1 = ''asset'' \<and>
   generate_fix [''a.swift'' \<mapsto> both_file] dep_issue =
     Inr (FixDict \<lparr>f_file = ''a.swift'', f_line = 1,
            f_original = ''let d = AVAsset(url: u); asset.duration'',
            f_replacement = Some ''let d = AVURLAsset(url: u); asset.duration'',
            f_message = ''Replace deprecated API with modern equivalent''\<rparr>) \<and>
   \<not> sublist ''load(.duration)'' ''let d = AVURLAsset(url: u); asset.duration''"
  by code_simp

text \<open>
  C8, amended.  Let line \<open>N\<close> of the content read from the file be found by a pattern of the table of fixes and
  by none of the patterns before it in the table, and let \<open>m\<close> be the match that
  \<open>re.search\<close> finds for that pattern.  Then the replacement of the fix is the stripped
  result of \<open>re.sub\<close> for that pattern, and it contains the expansion of the pattern's
  template for \<open>m\<close>: every literal piece of the template (the modern API) and, unchanged,
  the text of every group that the template refers to.
\<close>

theorem deprecated_fix_expands_first_pattern:
  assumes target: "fs (i_file issue) = Some raw"
    and content: "content = universal_newlines raw"
    and lo: "1 \<le> i_line issue"
    and hi: "i_line issue \<le> int (length (splitlines content))"
    and line: "line = splitlines content ! nat (i_line issue - 1)"
    and table: "api_replacements = before @ (pattern, template) # after"
    and earlier: "\<forall>(p, t) \<in> set before. re_search p line = None"
    and found: "re_search pattern line = Some m"
  shows "\<exists>r. fix_deprecated_api fs issue =
             Inr \<lparr>f_file = i_file issue, f_line = i_line issue, f_original = strip line,
                   f_replacement = Some r,
                   f_message = ''Replace deprecated API with modern equivalent''\<rparr> \<and>
           r = strip (re_sub pattern template line) \<and>
           sublist (expand line m template) r \<and>
           (\<forall>n. TGroup n \<in> set template \<longrightarrow> sublist (group line m n) r) \<and>
           (\<forall>l. TLit l \<in> set template \<longrightarrow> sublist l r)"
proof -
  let ?r = "strip (re_sub pattern template line)"
  have first: "first_replacement api_replacements line = Some (re_sub pattern template line)"
    unfolding table using earlier found by (rule first_replacement_split)
  have run: "fix_deprecated_api fs issue =
      Inr \<lparr>f_file = i_file issue, f_line = i_line issue, f_original = strip line,
            f_replacement = Some ?r,
            f_message = ''Replace deprecated API with modern equivalent''\<rparr>"
    by (simp add: fix_deprecated_api_def read_file_def target content [symmetric] Let_def
        getitem_in_range [OF lo hi] line [symmetric] first)
  have mem: "(pattern, template) \<in> set api_replacements"
    unfolding table by simp
  from re_sub_first [OF found, of template]
  have "sublist (expand line m template) (re_sub pattern template line)"
    unfolding sublist_def by blast
  moreover from template_ends [OF mem found]
  have "expand line m template \<noteq> []" "\<not> is_space (hd (expand line m template))"
    "\<not> is_space (last (expand line m template))"
    by simp_all
  ultimately have ex: "sublist (expand line m template) ?r"
    by (rule strip_keeps_sublist)
  have grp: "sublist (group line m n) ?r" if "TGroup n \<in> set template" for n
    using expand_group [OF that] ex by (rule sublist_chain)
  have lit: "sublist l ?r" if "TLit l \<in> set template" for l
    using expand_lit [OF that] ex by (rule sublist_chain)
  from run ex grp lit show ?thesis by blast
qed

theorem deprecated_fix_expands_first_pattern_witness:
  "[''a.swift'' \<mapsto> duration_file] (i_file dep_issue) = Some duration_file \<and>
   duration_file = universal_newlines duration_file \<and>
   1 \<le> i_line dep_issue \<and>
   i_line dep_issue \<le> int (length (splitlines duration_file)) \<and>
   ''let d = asset.duration'' = splitlines duration_file ! nat (i_line dep_issue - 1) \<and>
   api_replacements =
     take 1 api_replacements @
     ([GOpen 1, Plus Word, GClose 1] @ lits ''.duration'',
      [TLit ''try await '', TGroup 1, TLit ''.load(.duration)'']) # drop 2 api_replacements \<and>
   list_all (\<lambda>(p, t). re_search p ''let d = asset.duration'' = None) (take 1 api_replacements) \<and>
   re_search ([GOpen 1, Plus Word, GClose 1] @ lits ''.duration'') ''let d = asset.duration'' \<noteq> None \<and>
   (\<exists>r. fix_deprecated_api [''a.swift'' \<mapsto> duration_file] dep_issue =
          Inr \<lparr>f_file = ''a.swift'', f_line = 1, f_original = ''let d = asset.duration'',
                f_replacement = Some r,
                f_message = ''Replace deprecated API with modern equivalent''\<rparr> \<and>
        sublist ''try await asset.load(.duration)'' r \<and> sublist ''asset'' r \<and>
        sublist ''.load(.duration)'' r)"
proof -
  let ?fs = "[''a.swift'' \<mapsto> duration_file]"
  let ?line = "''let d = asset.duration''"
  let ?p = "[GOpen 1, Plus Word, GClose 1] @ lits ''.duration''"
  let ?t = "[TLit ''try await '', TGroup 1, TLit ''.load(.duration)'']"
  let ?m = "the (re_search ?p ?line)"
  have f: "i_file dep_issue = ''a.swift''" and l: "i_line dep_issue = 1"
    by (simp_all add: dep_issue_def)
  have h1: "?fs (i_file dep_issue) = Some duration_file" by (simp add: f)
  have hc: "duration_file = universal_newlines duration_file" by code_simp
  have h2: "1 \<le> i_line dep_issue" by (simp add: l)
  have h3: "i_line dep_issue \<le> int (length (splitlines duration_file))"
    unfolding l by code_simp
  have h4: "?line = splitlines duration_file ! nat (i_line dep_issue - 1)"
    unfolding l by code_simp
  have h5: "api_replacements = take 1 api_replacements @ (?p, ?t) # drop 2 api_replacements"
    by (simp add: api_replacements_def)
  have h6': "list_all (\<lambda>(p, t). re_search p ?line = None) (take 1 api_replacements)"
    by code_simp
  then have h6: "\<forall>(p, t) \<in> set (take 1 api_replacements). re_search p ?line = None"
    by (simp add: list_all_iff)
  have h7': "re_search ?p ?line \<noteq> None"
    by code_simp
  then have h7: "re_search ?p ?line = Some ?m"
    by simp
  have g: "group ?line ?m 1 = ''asset''"
    by code_simp
  have s: "strip ?line = ?line"
    by code_simp
  from deprecated_fix_expands_first_pattern [where fs = ?fs and issue = dep_issue,
      OF h1 hc h2 h3 h4 h5 h6 h7]
  obtain r where
    run: "fix_deprecated_api ?fs dep_issue =
            Inr \<lparr>f_file = i_file dep_issue, f_line = i_line dep_issue, f_original = strip ?line,
                  f_replacement = Some r,
                  f_message = ''Replace deprecated API with modern equivalent''\<rparr>"
    and ex: "sublist (expand ?line ?m ?t) r"
    and grp: "\<forall>n. TGroup n \<in> set ?t \<longrightarrow> sublist (group ?line ?m n) r"
    and lit: "\<forall>l. TLit l \<in> set ?t \<longrightarrow> sublist l r"
    by blast
  have e: "expand ?line ?m ?t = ''try await asset.load(.duration)''"
    by code_simp
  from ex have a: "sublist ''try await asset.load(.duration)'' r"
    by (simp only: e)
  have "TGroup 1 \<in> set ?t" by simp
  with grp have "sublist (group ?line ?m 1) r" by blast
  then have b: "sublist ''asset'' r" by (simp only: g)
  have "TLit ''.load(.duration)'' \<in> set ?t" by simp
  with lit have c: "sublist ''.load(.duration)'' r" by blast
  have run': "fix_deprecated_api ?fs dep_issue =
      Inr \<lparr>f_file = ''a.swift'', f_line = 1, f_original = ?line, f_replacement = Some r,
            f_message = ''Replace deprecated API with modern equivalent''\<rparr>"
    using run unfolding f l s by simp
  from h1 hc h2 h3 h4 h5 h6' h7' run' a b c show ?thesis by blast
qed

end
